theory Spec2Isabelle
  imports Main "HOL-Library.Word" "HOL-Library.AList" "HOL-Library.Multiset"
begin

section \<open>The query engine of package tsdb: Planner, Executor, ShardMapper\<close>

text \<open>
  A shallow embedding of \<^verbatim>\<open>tsdb/query_engine.go\<close>. The collaborators of the Planner
  (the meta store, the cluster, the clock, the helpers of package influxql) are fields of an
  environment record; every call that Plan makes on the meta store or on the cluster is
  appended to a log, so that statements about "which calls were made" are statements about
  that log.
\<close>

subsection \<open>Values of the Go runtime\<close>

type_synonym u64 = "64 word"

text \<open>
  A \<^verbatim>\<open>time.Time\<close> is modelled by the instant it denotes, in nanoseconds relative to
  the Unix epoch. The zero value of \<^verbatim>\<open>time.Time\<close> is January 1, year 1, 00:00 UTC, which is
  62135596800 seconds before the epoch.
\<close>

type_synonym time = int

definition zero_time :: time where
  "zero_time = - 62135596800 * 1000000000"

definition IsZero :: "time \<Rightarrow> bool" where
  "IsZero t = (t = zero_time)"

definition Unix :: "int \<Rightarrow> int \<Rightarrow> time" where
  "Unix sec nsec = sec * 1000000000 + nsec"

text \<open>
  Go's map iteration order is unspecified. \<open>range_order seed xs\<close> enumerates the entries
  \<open>xs\<close> of a map in the order that \<open>seed\<close> selects: each number of the seed picks the next
  entry among those not yet visited.
\<close>

primrec range_order :: "nat list \<Rightarrow> 'a list \<Rightarrow> 'a list" where
  "range_order [] xs = xs"
| "range_order (s # ss) xs =
     (if xs = [] then []
      else (let i = s mod length xs
            in xs ! i # range_order ss (take i xs @ drop (Suc i) xs)))"

subsection \<open>Types of packages influxql and meta\<close>

record Measurement =
  Database :: string
  RetentionPolicy :: string
  Name :: string

text \<open>
  A source of a statement is a measurement or any other implementation of the Source
  interface (identified here by a description).
\<close>

datatype Source = MeasurementSource Measurement | OtherSource string

text \<open>
  The select statement: Plan reads \<^verbatim>\<open>Sources\<close> and reads and writes \<^verbatim>\<open>Condition\<close>. The
  other fields of the statement are the extension of the record. The type \<open>'e\<close> is the type
  of condition expressions.
\<close>

record 'e SelectStatement =
  Sources :: "Source list"
  Condition :: 'e

text \<open>
  Modelled from the spec: \<^verbatim>\<open>meta.ShardInfo\<close> and its method \<^verbatim>\<open>OwnedBy\<close> are not in the
  source file. The spec gives a shard an id and an owning node, and calls a shard local when
  "its owning node equals the local node".
\<close>

record ShardInfo =
  ID :: u64
  OwnerID :: u64

definition OwnedBy :: "ShardInfo \<Rightarrow> u64 \<Rightarrow> bool" where
  "OwnedBy sh nodeID = (OwnerID sh = nodeID)"

record ShardGroupInfo =
  Shards :: "ShardInfo list"

text \<open>
  Modelled from the spec: \<^verbatim>\<open>influxql.Row\<close> is not in the source file. The spec describes a
  Row as keyed by tag set and interval, with a payload.
\<close>

record Row =
  row_tagSet :: string
  row_payload :: "string list"
  row_interval :: int

subsection \<open>Errors\<close>

text \<open>
  Plan builds one error itself (\<^verbatim>\<open>invalid source type\<close>); every other error is handed
  through from a collaborator.
\<close>

datatype Error = InvalidSourceType Source | CollaboratorError string

subsection \<open>ShardMapper\<close>

text \<open>The struct has no field.\<close>

datatype ShardMapper = ShardMapper

text \<open>
  The methods have a pointer receiver: each returns its results and the receiver after the
  call. An \<^verbatim>\<open>error\<close> result is \<open>None\<close> for \<^verbatim>\<open>nil\<close>; the \<^verbatim>\<open>interface{}\<close> result of
  NextChunk is \<open>None\<close> for \<^verbatim>\<open>nil\<close>.
\<close>

definition ShardMapper_Open :: "ShardMapper \<Rightarrow> Error option \<times> ShardMapper" where
  "ShardMapper_Open sm = (None, sm)"

definition ShardMapper_Close :: "ShardMapper \<Rightarrow> ShardMapper" where
  "ShardMapper_Close sm = sm"

definition ShardMapper_Begin ::
  "ShardMapper \<Rightarrow> ('e, 'z) SelectStatement_scheme \<Rightarrow> int \<Rightarrow> Error option \<times> ShardMapper" where
  "ShardMapper_Begin sm stmt chunkSize = (None, sm)"

definition ShardMapper_NextChunk ::
  "ShardMapper \<Rightarrow> (string \<times> 'v option \<times> int \<times> Error option) \<times> ShardMapper" where
  "ShardMapper_NextChunk sm = (('''', None, 0, None), sm)"

text \<open>
  A Mapper is a ShardMapper or a value of another implementation of the interface (what the
  cluster hands out), identified by a handle.
\<close>

datatype Mapper = ShardMapperImpl ShardMapper | OtherImpl nat

subsection \<open>Executor\<close>

record Executor =
  mappers :: "Mapper list"

definition NewExecutor :: "Mapper list \<Rightarrow> Executor" where
  "NewExecutor ms = \<lparr>mappers = ms\<rparr>"

text \<open>
  What a call of Execute leaves behind: the channel it made (its capacity, whether it has been
  closed), the goroutines it started, each with the actions it has still to perform, the
  methods it called on its mappers (by position in \<^verbatim>\<open>e.mappers\<close>), and the rows handed to the
  consumer so far.
\<close>

datatype MapperCall = CallOpen | CallBegin | CallNextChunk | CallClose

datatype Action = DoCall nat MapperCall | DoSend Row | DoCloseOut

record Run =
  out_capacity :: nat
  out_closed :: bool
  goroutines :: "Action list list"
  mapper_calls :: "(nat \<times> MapperCall) list"
  delivered :: "Row list"

text \<open>
  Execute makes an unbuffered channel and returns it. It contains no \<^verbatim>\<open>go\<close> statement, no
  \<^verbatim>\<open>close\<close>, no send, and no call on a mapper.
\<close>

definition Execute :: "Executor \<Rightarrow> Run" where
  "Execute e =
     \<lparr>out_capacity = 0, out_closed = False, goroutines = [], mapper_calls = [], delivered = []\<rparr>"

text \<open>
  The runtime, with the consumer receiving on the channel: goroutine \<open>i\<close> performs its next
  action. A call on a mapper is logged; a send on the open channel hands the row to the
  consumer; a close closes the open channel. A send on, or close of, a closed channel panics
  and has no successor.
\<close>

definition fire :: "Run \<Rightarrow> nat \<Rightarrow> Run list" where
  "fire r i =
     (case goroutines r ! i of
        [] \<Rightarrow> []
      | DoCall k c # acts \<Rightarrow>
          [r\<lparr>goroutines := (goroutines r)[i := acts],
             mapper_calls := mapper_calls r @ [(k, c)]\<rparr>]
      | DoSend row # acts \<Rightarrow>
          (if out_closed r then []
           else [r\<lparr>goroutines := (goroutines r)[i := acts],
                   delivered := delivered r @ [row]\<rparr>])
      | DoCloseOut # acts \<Rightarrow>
          (if out_closed r then []
           else [r\<lparr>goroutines := (goroutines r)[i := acts], out_closed := True\<rparr>]))"

definition successors :: "Run \<Rightarrow> Run list" where
  "successors r = concat (map (fire r) [0 ..< length (goroutines r)])"

inductive reaches :: "Run \<Rightarrow> Run \<Rightarrow> bool" where
  reaches_refl: "reaches r r"
| reaches_step: "reaches r r' \<Longrightarrow> r'' \<in> set (successors r') \<Longrightarrow> reaches r r''"

text \<open>
  The consumer's \<^verbatim>\<open>range\<close> loop over the channel ends when the channel is closed. It is
  blocked for ever when the channel is open and no goroutine can take a step.
\<close>

definition ended :: "Run \<Rightarrow> bool" where
  "ended r = out_closed r"

definition blocked_forever :: "Run \<Rightarrow> bool" where
  "blocked_forever r = (\<not> out_closed r \<and> successors r = [])"

definition close_count :: "Run \<Rightarrow> nat \<Rightarrow> nat" where
  "close_count r k = count_list (mapper_calls r) (k, CallClose)"

subsection \<open>Planner\<close>

text \<open>
  The collaborators of Plan. \<open>Reduce c now\<close> is \<^verbatim>\<open>influxql.Reduce\<close> with a
  \<^verbatim>\<open>NowValuer{Now: now}\<close>, and \<open>TimeRange\<close> is \<^verbatim>\<open>influxql.TimeRange\<close>; neither is in the
  source file, and Plan is modelled for any pair of them. \<open>clock n\<close> is what the \<open>n\<close>-th call
  of \<^verbatim>\<open>time.Now()\<close> during Plan returns, and \<open>range_seed\<close> fixes the order in which the
  runtime enumerates the shard map. The Planner is one whose \<^verbatim>\<open>MetaStore\<close> and
  \<^verbatim>\<open>Cluster\<close> are set, and the statement pointer is not nil: a call through a nil
  collaborator panics and has no place in this record.
\<close>

record 'e Env =
  Reduce :: "'e \<Rightarrow> time \<Rightarrow> 'e"
  TimeRange :: "'e \<Rightarrow> time \<times> time"
  ShardGroupsByTimeRange :: "string \<Rightarrow> string \<Rightarrow> time \<Rightarrow> time \<Rightarrow> Error + ShardGroupInfo list"
  NodeID :: u64
  NewMapper :: "u64 \<Rightarrow> Error + Mapper"
  clock :: "nat \<Rightarrow> time"
  range_seed :: "nat list"

datatype Event = LookupCall string string time time | NewMapperCall u64

text \<open>
  The variables of Plan while it runs over the sources: the statement's condition (Plan
  assigns to it through the pointer), the number of clock readings taken, the log of
  collaborator calls, and the map \<^verbatim>\<open>shards\<close>, as an association list with distinct keys.
\<close>

record 'e PlanState =
  st_condition :: 'e
  st_ticks :: nat
  st_trace :: "Event list"
  st_shards :: "(u64 \<times> ShardInfo) list"

definition time_Now :: "'e Env \<Rightarrow> 'e PlanState \<Rightarrow> time \<times> 'e PlanState" where
  "time_Now env s = (clock env (st_ticks s), s\<lparr>st_ticks := Suc (st_ticks s)\<rparr>)"

text \<open>Lines 60 to 67: reduce the condition, extract the range, default zero values.\<close>

definition resolve_time_range :: "'e Env \<Rightarrow> 'e PlanState \<Rightarrow> (time \<times> time) \<times> 'e PlanState" where
  "resolve_time_range env s =
     (let (now, s1) = time_Now env s;
          s2 = s1\<lparr>st_condition := Reduce env (st_condition s1) now\<rparr>;
          (tmin, tmax) = TimeRange env (st_condition s2);
          (tmax', s3) = (if IsZero tmax then time_Now env s2 else (tmax, s2));
          tmin' = (if IsZero tmin then Unix 0 0 else tmin)
      in ((tmin', tmax'), s3))"

text \<open>Lines 75 to 79: \<^verbatim>\<open>shards[sh.ID] = sh\<close> for every shard of every group.\<close>

primrec add_shards :: "ShardInfo list \<Rightarrow> (u64 \<times> ShardInfo) list \<Rightarrow> (u64 \<times> ShardInfo) list" where
  "add_shards [] m = m"
| "add_shards (sh # shs) m = add_shards shs (AList.update (ID sh) sh m)"

primrec add_groups :: "ShardGroupInfo list \<Rightarrow> (u64 \<times> ShardInfo) list \<Rightarrow> (u64 \<times> ShardInfo) list" where
  "add_groups [] m = m"
| "add_groups (g # gs) m = add_groups gs (add_shards (Shards g) m)"

text \<open>
  Lines 53 to 80: the loop over the sources. It returns the error it stopped with, if any,
  and the variables as they are at that moment.
\<close>

fun source_loop :: "'e Env \<Rightarrow> Source list \<Rightarrow> 'e PlanState \<Rightarrow> Error option \<times> 'e PlanState" where
  "source_loop env [] s = (None, s)"
| "source_loop env (OtherSource d # rest) s = (Some (InvalidSourceType (OtherSource d)), s)"
| "source_loop env (MeasurementSource mm # rest) s =
     (case resolve_time_range env s of
        ((tmin, tmax), s1) \<Rightarrow>
          (let s2 = s1\<lparr>st_trace := st_trace s1 @
                         [LookupCall (Database mm) (RetentionPolicy mm) tmin tmax]\<rparr>
           in case ShardGroupsByTimeRange env (Database mm) (RetentionPolicy mm) tmin tmax of
                Inl err \<Rightarrow> (Some err, s2)
              | Inr shardGroups \<Rightarrow>
                  source_loop env rest
                    (s2\<lparr>st_shards := add_groups shardGroups (st_shards s2)\<rparr>)))"

text \<open>Lines 84 to 96: the loop over the shards, in the order the runtime enumerates them.\<close>

fun mapper_loop ::
  "'e Env \<Rightarrow> ShardInfo list \<Rightarrow> Mapper list \<Rightarrow> Event list \<Rightarrow> (Error + Mapper list) \<times> Event list" where
  "mapper_loop env [] ms tr = (Inr ms, tr)"
| "mapper_loop env (sh # shs) ms tr =
     (if OwnedBy sh (NodeID env)
      then mapper_loop env shs (ms @ [ShardMapperImpl ShardMapper]) tr
      else (case NewMapper env (ID sh) of
              Inl err \<Rightarrow> (Inl err, tr @ [NewMapperCall (ID sh)])
            | Inr mapper \<Rightarrow> mapper_loop env shs (ms @ [mapper]) (tr @ [NewMapperCall (ID sh)])))"

definition initial_state :: "('e, 'z) SelectStatement_scheme \<Rightarrow> 'e PlanState" where
  "initial_state stmt =
     \<lparr>st_condition = Condition stmt, st_ticks = 0, st_trace = [], st_shards = []\<rparr>"

text \<open>
  Plan returns the pair of the Go function (an error and no Executor, or an Executor and no
  error), the statement as it is after the call, and the log of collaborator calls.
  \<^verbatim>\<open>chunkSize\<close> is not used by the body.
\<close>

definition Plan ::
  "'e Env \<Rightarrow> ('e, 'z) SelectStatement_scheme \<Rightarrow> int \<Rightarrow>
     (Error + Executor) \<times> ('e, 'z) SelectStatement_scheme \<times> Event list" where
  "Plan env stmt chunkSize =
     (case source_loop env (Sources stmt) (initial_state stmt) of
        (Some err, s) \<Rightarrow> (Inl err, stmt\<lparr>Condition := st_condition s\<rparr>, st_trace s)
      | (None, s) \<Rightarrow>
          (case mapper_loop env (map snd (range_order (range_seed env) (st_shards s))) []
                  (st_trace s) of
             (Inl err, tr) \<Rightarrow> (Inl err, stmt\<lparr>Condition := st_condition s\<rparr>, tr)
           | (Inr ms, tr) \<Rightarrow> (Inr (NewExecutor ms), stmt\<lparr>Condition := st_condition s\<rparr>, tr)))"

definition plan_result :: "'e Env \<Rightarrow> ('e, 'z) SelectStatement_scheme \<Rightarrow> int \<Rightarrow> Error + Executor" where
  "plan_result env stmt chunkSize = fst (Plan env stmt chunkSize)"

definition plan_statement ::
  "'e Env \<Rightarrow> ('e, 'z) SelectStatement_scheme \<Rightarrow> int \<Rightarrow> ('e, 'z) SelectStatement_scheme" where
  "plan_statement env stmt chunkSize = fst (snd (Plan env stmt chunkSize))"

definition plan_trace :: "'e Env \<Rightarrow> ('e, 'z) SelectStatement_scheme \<Rightarrow> int \<Rightarrow> Event list" where
  "plan_trace env stmt chunkSize = snd (snd (Plan env stmt chunkSize))"

text \<open>The shard map as it is when the loop over the sources has ended.\<close>

definition resolved_shards ::
  "'e Env \<Rightarrow> ('e, 'z) SelectStatement_scheme \<Rightarrow> (u64 \<times> ShardInfo) list" where
  "resolved_shards env stmt = st_shards (snd (source_loop env (Sources stmt) (initial_state stmt)))"

text \<open>
  The ids of all shards in all groups that the catalog returned to the lookups of a log:
  the union of the covering shard groups across the sources.
\<close>

definition event_shard_ids :: "'e Env \<Rightarrow> Event \<Rightarrow> u64 list" where
  "event_shard_ids env ev =
     (case ev of
        LookupCall db rp tmin tmax \<Rightarrow>
          (case ShardGroupsByTimeRange env db rp tmin tmax of
             Inl err \<Rightarrow> []
           | Inr gs \<Rightarrow> concat (map (\<lambda>g. map ID (Shards g)) gs))
      | NewMapperCall k \<Rightarrow> [])"

definition covering_shard_ids :: "'e Env \<Rightarrow> Event list \<Rightarrow> u64 set" where
  "covering_shard_ids env tr = set (concat (map (event_shard_ids env) tr))"

text \<open>The mapper that Plan builds for one shard.\<close>

definition mapper_for :: "'e Env \<Rightarrow> ShardInfo \<Rightarrow> Mapper \<Rightarrow> bool" where
  "mapper_for env sh m =
     (if OwnedBy sh (NodeID env) then m = ShardMapperImpl ShardMapper
      else NewMapper env (ID sh) = Inr m)"

fun is_measurement :: "Source \<Rightarrow> bool" where
  "is_measurement (MeasurementSource mm) = True"
| "is_measurement (OtherSource d) = False"

subsection \<open>A condition language for examples\<close>

text \<open>
  Modelled from the spec: the condition expressions of package influxql,
  \<^verbatim>\<open>influxql.Reduce\<close> with a \<^verbatim>\<open>NowValuer\<close>, and \<^verbatim>\<open>influxql.TimeRange\<close> are not in the
  source file. The spec asks for "a time-valued condition supporting current instant
  substitution and range extraction": a condition bounds time from below or from above by
  a literal or by the current-instant marker, or is a conjunction; reduction replaces the
  marker by the given instant; the range is the largest lower and the smallest upper
  literal bound, the zero time standing for no bound.
\<close>

datatype TimeExpr = NowCall | TimeLiteral time

datatype Expr = NoCondition | TimeAtLeast TimeExpr | TimeAtMost TimeExpr | AndExpr Expr Expr

fun reduce_time :: "TimeExpr \<Rightarrow> time \<Rightarrow> TimeExpr" where
  "reduce_time NowCall now = TimeLiteral now"
| "reduce_time (TimeLiteral t) now = TimeLiteral t"

fun Reduce_expr :: "Expr \<Rightarrow> time \<Rightarrow> Expr" where
  "Reduce_expr NoCondition now = NoCondition"
| "Reduce_expr (TimeAtLeast t) now = TimeAtLeast (reduce_time t now)"
| "Reduce_expr (TimeAtMost t) now = TimeAtMost (reduce_time t now)"
| "Reduce_expr (AndExpr a b) now = AndExpr (Reduce_expr a now) (Reduce_expr b now)"

definition later_min :: "time \<Rightarrow> time \<Rightarrow> time" where
  "later_min a b = (if IsZero a then b else if IsZero b then a else max a b)"

definition earlier_max :: "time \<Rightarrow> time \<Rightarrow> time" where
  "earlier_max a b = (if IsZero a then b else if IsZero b then a else min a b)"

fun TimeRange_expr :: "Expr \<Rightarrow> time \<times> time" where
  "TimeRange_expr NoCondition = (zero_time, zero_time)"
| "TimeRange_expr (TimeAtLeast (TimeLiteral t)) = (t, zero_time)"
| "TimeRange_expr (TimeAtLeast NowCall) = (zero_time, zero_time)"
| "TimeRange_expr (TimeAtMost (TimeLiteral t)) = (zero_time, t)"
| "TimeRange_expr (TimeAtMost NowCall) = (zero_time, zero_time)"
| "TimeRange_expr (AndExpr a b) =
     (later_min (fst (TimeRange_expr a)) (fst (TimeRange_expr b)),
      earlier_max (snd (TimeRange_expr a)) (snd (TimeRange_expr b)))"

subsection \<open>Predicates on the variables and on the log\<close>

text \<open>
  The shard map has distinct keys, and every entry is stored under its own id
  (\<^verbatim>\<open>shards[sh.ID] = sh\<close>).
\<close>

definition keyed :: "(u64 \<times> ShardInfo) list \<Rightarrow> bool" where
  "keyed m = (distinct (map fst m) \<and> list_all (\<lambda>p. ID (snd p) = fst p) m)"

fun is_lookup :: "Event \<Rightarrow> bool" where
  "is_lookup (LookupCall db rp tmin tmax) = True"
| "is_lookup (NewMapperCall k) = False"

text \<open>The collaborator call of a log entry returned an error.\<close>

fun call_failed :: "'e Env \<Rightarrow> Event \<Rightarrow> Error \<Rightarrow> bool" where
  "call_failed env (LookupCall db rp tmin tmax) err =
     (ShardGroupsByTimeRange env db rp tmin tmax = Inl err)"
| "call_failed env (NewMapperCall k) err = (NewMapper env k = Inl err)"

definition non_local :: "'e Env \<Rightarrow> ShardInfo \<Rightarrow> bool" where
  "non_local env sh = (\<not> OwnedBy sh (NodeID env))"

text \<open>The time ranges of the lookups of a log, in order.\<close>

fun lookup_ranges :: "Event list \<Rightarrow> (time \<times> time) list" where
  "lookup_ranges [] = []"
| "lookup_ranges (LookupCall db rp tmin tmax # tr) = (tmin, tmax) # lookup_ranges tr"
| "lookup_ranges (NewMapperCall k # tr) = lookup_ranges tr"

subsection \<open>The lookups as the claims describe them\<close>

text \<open>
  A second description of what Plan does for its sources, written from the words of the
  claims and not from the loop, to compare the loop with. For every measurement source, in
  the order of the source list, there is one step: the condition is reduced at the instant
  the clock shows, the range of the reduced condition is extracted, a zero-valued minimum
  is replaced by the epoch and a zero-valued maximum by the next reading of the clock, and
  the catalog is asked for the source's database and retention policy over that range. A
  source that is not a measurement ends the list. \<open>n\<close> counts the readings of the clock
  taken so far.
\<close>

record 'e Step =
  step_now :: time
  step_condition :: 'e
  step_lookup :: Event

fun source_steps :: "'e Env \<Rightarrow> Source list \<Rightarrow> 'e \<Rightarrow> nat \<Rightarrow> 'e Step list" where
  "source_steps env [] c n = []"
| "source_steps env (OtherSource d # rest) c n = []"
| "source_steps env (MeasurementSource mm # rest) c n =
     (let now = clock env n;
          c' = Reduce env c now;
          tmin = fst (TimeRange env c');
          tmax = snd (TimeRange env c')
      in \<lparr>step_now = now, step_condition = c',
          step_lookup = LookupCall (Database mm) (RetentionPolicy mm)
            (if IsZero tmin then Unix 0 0 else tmin)
            (if IsZero tmax then clock env (Suc n) else tmax)\<rparr>
         # source_steps env rest c' (if IsZero tmax then n + 2 else n + 1))"

text \<open>The collaborator call of a log entry returned no error.\<close>

fun call_ok :: "'e Env \<Rightarrow> Event \<Rightarrow> bool" where
  "call_ok env (LookupCall db rp tmin tmax) =
     (case ShardGroupsByTimeRange env db rp tmin tmax of Inl err \<Rightarrow> False | Inr gs \<Rightarrow> True)"
| "call_ok env (NewMapperCall k) =
     (case NewMapper env k of Inl err \<Rightarrow> False | Inr m \<Rightarrow> True)"

text \<open>The steps up to and including the first one whose lookup fails.\<close>

fun performed :: "'e Env \<Rightarrow> 'e Step list \<Rightarrow> 'e Step list" where
  "performed env [] = []"
| "performed env (st # sts) =
     st # (if call_ok env (step_lookup st) then performed env sts else [])"

definition all_steps :: "'e Env \<Rightarrow> ('e, 'z) SelectStatement_scheme \<Rightarrow> 'e Step list" where
  "all_steps env stmt = source_steps env (Sources stmt) (Condition stmt) 0"

definition plan_steps :: "'e Env \<Rightarrow> ('e, 'z) SelectStatement_scheme \<Rightarrow> 'e Step list" where
  "plan_steps env stmt = performed env (all_steps env stmt)"

text \<open>
  The union of the covering shard groups across all sources: the ids of the shards in the
  groups that the catalog returns to the lookup of each source.
\<close>

definition source_shard_ids :: "'e Env \<Rightarrow> ('e, 'z) SelectStatement_scheme \<Rightarrow> u64 set" where
  "source_shard_ids env stmt = covering_shard_ids env (map step_lookup (all_steps env stmt))"

subsection \<open>The scenario of the spec\<close>

text \<open>
  One measurement, one shard group of two shards, shard 1 owned by the local node 1 and
  shard 2 by node 2; the clock reads 1000, 1001, ...
\<close>

definition scenario_catalog :: "string \<Rightarrow> string \<Rightarrow> time \<Rightarrow> time \<Rightarrow> Error + ShardGroupInfo list" where
  "scenario_catalog db rp tmin tmax =
     Inr [\<lparr>Shards = [\<lparr>ID = 1, OwnerID = 1\<rparr>, \<lparr>ID = 2, OwnerID = 2\<rparr>]\<rparr>]"

definition scenario_env :: "Expr Env" where
  "scenario_env =
     \<lparr>Reduce = Reduce_expr, TimeRange = TimeRange_expr,
      ShardGroupsByTimeRange = scenario_catalog, NodeID = 1,
      NewMapper = (\<lambda>k. Inr (OtherImpl (unat k))),
      clock = (\<lambda>n. 1000 + int n), range_seed = []\<rparr>"

text \<open>The same cluster when no remote node can be reached.\<close>

definition unreachable_env :: "Expr Env" where
  "unreachable_env = scenario_env\<lparr>NewMapper := (\<lambda>k. Inl (CollaboratorError ''unreachable''))\<rparr>"

text \<open>The same, seen from node 3, which owns neither shard.\<close>

definition outsider_env :: "Expr Env" where
  "outsider_env = unreachable_env\<lparr>NodeID := 3\<rparr>"

definition cpu :: Measurement where
  "cpu = \<lparr>Database = ''db'', RetentionPolicy = ''rp'', Name = ''cpu''\<rparr>"

definition mem :: Measurement where
  "mem = \<lparr>Database = ''db'', RetentionPolicy = ''rp'', Name = ''mem''\<rparr>"

text \<open>\<^verbatim>\<open>SELECT ... FROM cpu WHERE time >= 10 AND time <= now()\<close>\<close>

definition scenario_stmt :: "Expr SelectStatement" where
  "scenario_stmt =
     \<lparr>Sources = [MeasurementSource cpu],
      Condition = AndExpr (TimeAtLeast (TimeLiteral 10)) (TimeAtMost NowCall)\<rparr>"

text \<open>Two sources that resolve to the same shards.\<close>

definition overlap_stmt :: "Expr SelectStatement" where
  "overlap_stmt = scenario_stmt\<lparr>Sources := [MeasurementSource cpu, MeasurementSource mem]\<rparr>"

text \<open>A source list with an entry that is not a measurement.\<close>

definition mixed_stmt :: "Expr SelectStatement" where
  "mixed_stmt = scenario_stmt\<lparr>Sources := [MeasurementSource cpu, OtherSource ''join'']\<rparr>"

text \<open>\<^verbatim>\<open>SELECT ... FROM cpu WHERE time >= 2000 AND time <= 1000\<close>\<close>

definition inverted_stmt :: "Expr SelectStatement" where
  "inverted_stmt =
     scenario_stmt\<lparr>Condition := AndExpr (TimeAtLeast (TimeLiteral 2000)) (TimeAtMost (TimeLiteral 1000))\<rparr>"

text \<open>\<^verbatim>\<open>SELECT ... FROM cpu\<close>, with no condition on time.\<close>

definition unbounded_stmt :: "Expr SelectStatement" where
  "unbounded_stmt = scenario_stmt\<lparr>Condition := NoCondition\<rparr>"

definition local_executor :: Executor where
  "local_executor = NewExecutor [ShardMapperImpl ShardMapper, ShardMapperImpl ShardMapper]"

text \<open>The catalog cannot be reached.\<close>

definition offline_env :: "Expr Env" where
  "offline_env =
     scenario_env\<lparr>ShardGroupsByTimeRange := (\<lambda>db rp tmin tmax. Inl (CollaboratorError ''catalog offline''))\<rparr>"

text \<open>\<^verbatim>\<open>SELECT ... FROM cpu WHERE time >= 5000\<close>, asked while the clock reads 1000.\<close>

definition future_stmt :: "Expr SelectStatement" where
  "future_stmt = scenario_stmt\<lparr>Condition := TimeAtLeast (TimeLiteral 5000)\<rparr>"

text \<open>
  Two databases whose shard groups overlap: \<^verbatim>\<open>db\<close> is on shards 1 and 2, any other
  database on shards 2 and 3.
\<close>

definition two_db_catalog :: "string \<Rightarrow> string \<Rightarrow> time \<Rightarrow> time \<Rightarrow> Error + ShardGroupInfo list" where
  "two_db_catalog db rp tmin tmax =
     (if db = ''db''
      then Inr [\<lparr>Shards = [\<lparr>ID = 1, OwnerID = 1\<rparr>, \<lparr>ID = 2, OwnerID = 2\<rparr>]\<rparr>]
      else Inr [\<lparr>Shards = [\<lparr>ID = 2, OwnerID = 2\<rparr>, \<lparr>ID = 3, OwnerID = 3\<rparr>]\<rparr>])"

definition two_db_env :: "Expr Env" where
  "two_db_env = scenario_env\<lparr>ShardGroupsByTimeRange := two_db_catalog\<rparr>"

definition cpu2 :: Measurement where
  "cpu2 = \<lparr>Database = ''db2'', RetentionPolicy = ''rp'', Name = ''cpu''\<rparr>"

definition two_db_stmt :: "Expr SelectStatement" where
  "two_db_stmt = scenario_stmt\<lparr>Sources := [MeasurementSource cpu, MeasurementSource cpu2]\<rparr>"

text \<open>
  An instance of the two helpers that makes every reduction visible: the condition is the
  list of the instants at which it was reduced, and it bounds time on neither side.
\<close>

definition recording_env :: "time list Env" where
  "recording_env =
     \<lparr>Reduce = (\<lambda>c now. c @ [now]), TimeRange = (\<lambda>c. (zero_time, zero_time)),
      ShardGroupsByTimeRange = scenario_catalog, NodeID = 1,
      NewMapper = (\<lambda>k. Inr (OtherImpl (unat k))),
      clock = (\<lambda>n. 1000 + int n), range_seed = []\<rparr>"

definition recording_stmt :: "time list SelectStatement" where
  "recording_stmt = \<lparr>Sources = [MeasurementSource cpu, MeasurementSource mem], Condition = []\<rparr>"

section \<open>ShardMapper\<close>

text \<open>
  Claim C10. The local ShardMapper is total and never fails or produces data: Open returns
  nil, Begin returns nil for any statement and chunk size, Close changes nothing (so calling
  it twice is the same as calling it once), and NextChunk returns the empty tag set, a nil
  result, interval 0 and a nil error, every time it is called.
\<close>

theorem ShardMapper_zero_valued:
  "ShardMapper_Open sm = (None, sm)
   \<and> ShardMapper_Begin sm stmt chunkSize = (None, sm)
   \<and> ShardMapper_Close sm = sm
   \<and> ShardMapper_Close (ShardMapper_Close sm) = ShardMapper_Close sm
   \<and> ShardMapper_NextChunk sm = (('''', None, 0, None), sm)
   \<and> ShardMapper_NextChunk (snd (ShardMapper_NextChunk sm :: (string \<times> 'v option \<times> int \<times> Error option) \<times> ShardMapper))
       = ((('''', None, 0, None), sm) :: (string \<times> 'v option \<times> int \<times> Error option) \<times> ShardMapper)"
  by (simp add: ShardMapper_Open_def ShardMapper_Begin_def ShardMapper_Close_def
      ShardMapper_NextChunk_def)

section \<open>Lemmas on the loops of Plan\<close>

subsection \<open>The enumeration order of the shard map\<close>

lemma mset_range_order: "mset (range_order ss xs) = mset xs"
proof (induction ss arbitrary: xs)
  case Nil
  then show ?case by simp
next
  case (Cons s ss)
  show ?case
  proof (cases "xs = []")
    case True
    then show ?thesis by simp
  next
    case False
    define i where "i = s mod length xs"
    have i: "i < length xs" using False by (simp add: i_def)
    have "xs = take i xs @ xs ! i # drop (Suc i) xs"
      using i by (simp add: id_take_nth_drop)
    then have "mset xs = mset (take i xs @ drop (Suc i) xs) + {#xs ! i#}"
      by (metis mset.simps(2) mset_append union_mset_add_mset_right add_mset_add_single)
    with Cons.IH[of "take i xs @ drop (Suc i) xs"] False show ?thesis
      by (simp add: i_def Let_def)
  qed
qed

text \<open>Every order of enumeration is the order of some seed.\<close>

lemma range_order_complete: "mset ys = mset xs \<Longrightarrow> \<exists>ss. range_order ss xs = ys"
proof (induction ys arbitrary: xs)
  case Nil
  then show ?case by (intro exI[of _ "[]"]) simp
next
  case (Cons y ys)
  then have "y \<in> set xs" by (metis list.set_intros(1) mset_eq_setD)
  then obtain i where i: "i < length xs" "xs ! i = y" by (auto simp: in_set_conv_nth)
  let ?rest = "take i xs @ drop (Suc i) xs"
  have "xs = take i xs @ y # drop (Suc i) xs"
    using id_take_nth_drop[OF i(1)] i(2) by simp
  then have "mset xs = add_mset y (mset ?rest)"
    by (metis mset.simps(2) mset_append union_mset_add_mset_right)
  with Cons.prems have "mset ys = mset ?rest" by simp
  from Cons.IH[OF this] obtain ss where ss: "range_order ss ?rest = ys" by blast
  have "xs \<noteq> []" using i by auto
  with i ss show ?case by (intro exI[of _ "i # ss"]) (simp add: Let_def)
qed

lemma set_range_order: "set (range_order ss xs) = set xs"
  using mset_range_order[of ss xs] by (rule mset_eq_setD)

lemma keyed_range_order: "keyed m \<Longrightarrow> keyed (range_order ss m)"
proof -
  assume k: "keyed m"
  have "mset (map fst (range_order ss m)) = mset (map fst m)"
    by (simp add: mset_range_order)
  then have "distinct (map fst (range_order ss m)) = distinct (map fst m)"
    by (rule mset_eq_imp_distinct_iff)
  with k show ?thesis
    by (simp add: keyed_def list_all_iff set_range_order)
qed

lemma keyed_ids: "keyed m \<Longrightarrow> map ID (map snd m) = map fst m"
  by (induction m) (simp_all add: keyed_def)

subsection \<open>The shard map\<close>

lemma set_update_subset: "set (AList.update k v al) \<subseteq> insert (k, v) (set al)"
  by (induction al) auto

lemma keyed_update: "keyed m \<Longrightarrow> keyed (AList.update (ID sh) sh m)"
  unfolding keyed_def list_all_iff
  using set_update_subset[of "ID sh" sh m] by (auto simp: distinct_update)

lemma keyed_add_shards: "keyed m \<Longrightarrow> keyed (add_shards shs m)"
  by (induction shs arbitrary: m) (simp_all add: keyed_update)

lemma keyed_add_groups: "keyed m \<Longrightarrow> keyed (add_groups gs m)"
  by (induction gs arbitrary: m) (simp_all add: keyed_add_shards)

lemma keys_add_shards: "fst ` set (add_shards shs m) = fst ` set m \<union> ID ` set shs"
  by (induction shs arbitrary: m) (auto simp: dom_update)

lemma keys_add_groups:
  "fst ` set (add_groups gs m) = fst ` set m \<union> set (concat (map (\<lambda>g. map ID (Shards g)) gs))"
  by (induction gs arbitrary: m) (auto simp: keys_add_shards)

subsection \<open>The time range\<close>

lemma resolve_time_range_frame:
  "resolve_time_range env s = ((tmin, tmax), s') \<Longrightarrow>
     st_trace s' = st_trace s \<and> st_shards s' = st_shards s
     \<and> st_condition s' = Reduce env (st_condition s) (clock env (st_ticks s))"
  by (auto simp: resolve_time_range_def time_Now_def Let_def split: prod.splits if_splits)

lemma resolve_time_range_values:
  "resolve_time_range env s = ((tmin, tmax), s') \<Longrightarrow>
     tmin = (if IsZero (fst (TimeRange env (st_condition s'))) then Unix 0 0
             else fst (TimeRange env (st_condition s')))
     \<and> tmax = (if IsZero (snd (TimeRange env (st_condition s')))
               then clock env (Suc (st_ticks s))
               else snd (TimeRange env (st_condition s')))"
  by (auto simp: resolve_time_range_def time_Now_def Let_def split: prod.splits if_splits)

subsection \<open>The loop over the sources\<close>

lemma source_loop_measurement_cases:
  assumes "source_loop env (MeasurementSource mm # rest) s = (r, s')"
  obtains (lookup_failed) tmin tmax s1 err where
      "resolve_time_range env s = ((tmin, tmax), s1)"
      "ShardGroupsByTimeRange env (Database mm) (RetentionPolicy mm) tmin tmax = Inl err"
      "r = Some err"
      "s' = s1\<lparr>st_trace := st_trace s1 @ [LookupCall (Database mm) (RetentionPolicy mm) tmin tmax]\<rparr>"
  | (lookup_ok) tmin tmax s1 gs where
      "resolve_time_range env s = ((tmin, tmax), s1)"
      "ShardGroupsByTimeRange env (Database mm) (RetentionPolicy mm) tmin tmax = Inr gs"
      "source_loop env rest
         (s1\<lparr>st_trace := st_trace s1 @ [LookupCall (Database mm) (RetentionPolicy mm) tmin tmax],
             st_shards := add_groups gs (st_shards s1)\<rparr>) = (r, s')"
proof -
  obtain tmin tmax s1 where rt: "resolve_time_range env s = ((tmin, tmax), s1)"
    by (metis prod.exhaust)
  show thesis
  proof (cases "ShardGroupsByTimeRange env (Database mm) (RetentionPolicy mm) tmin tmax")
    case (Inl err)
    with assms rt show thesis by (intro lookup_failed[of tmin tmax s1 err]) (auto simp: Let_def)
  next
    case (Inr gs)
    with assms rt show thesis by (intro lookup_ok[of tmin tmax s1 gs]) (auto simp: Let_def)
  qed
qed

text \<open>What the loop appends to the log, and what it adds to the shard map.\<close>

lemma source_loop_trace:
  "source_loop env srcs s = (r, s') \<Longrightarrow>
     \<exists>new. st_trace s' = st_trace s @ new \<and> list_all is_lookup new
       \<and> fst ` set (st_shards s') = fst ` set (st_shards s) \<union> covering_shard_ids env new
       \<and> (\<forall>ev \<in> set new. \<forall>err. call_failed env ev err \<longrightarrow> r = Some err)"
proof (induction srcs arbitrary: s)
  case Nil
  then show ?case by (simp add: covering_shard_ids_def)
next
  case (Cons src rest)
  show ?case
  proof (cases src)
    case (OtherSource d)
    with Cons.prems show ?thesis by (simp add: covering_shard_ids_def)
  next
    case (MeasurementSource mm)
    from Cons.prems[unfolded MeasurementSource] show ?thesis
    proof (cases rule: source_loop_measurement_cases)
      case (lookup_failed tmin tmax s1 err)
      let ?ev = "LookupCall (Database mm) (RetentionPolicy mm) tmin tmax"
      from lookup_failed resolve_time_range_frame[OF lookup_failed(1)] show ?thesis
        by (intro exI[of _ "[?ev]"]) (simp add: covering_shard_ids_def event_shard_ids_def)
    next
      case (lookup_ok tmin tmax s1 gs)
      let ?ev = "LookupCall (Database mm) (RetentionPolicy mm) tmin tmax"
      note fr = resolve_time_range_frame[OF lookup_ok(1)]
      from Cons.IH[OF lookup_ok(3)] obtain new where new:
        "st_trace s' = (st_trace s1 @ [?ev]) @ new" "list_all is_lookup new"
        "fst ` set (st_shards s') = fst ` set (add_groups gs (st_shards s1)) \<union> covering_shard_ids env new"
        "\<forall>ev \<in> set new. \<forall>err. call_failed env ev err \<longrightarrow> r = Some err"
        by auto
      show ?thesis
        using new fr lookup_ok(2)
        by (intro exI[of _ "?ev # new"])
           (auto simp: covering_shard_ids_def event_shard_ids_def keys_add_groups)
    qed
  qed
qed

lemma source_loop_keyed:
  "source_loop env srcs s = (r, s') \<Longrightarrow> keyed (st_shards s) \<Longrightarrow> keyed (st_shards s')"
proof (induction srcs arbitrary: s)
  case Nil
  then show ?case by simp
next
  case (Cons src rest)
  show ?case
  proof (cases src)
    case (OtherSource d)
    with Cons.prems show ?thesis by simp
  next
    case (MeasurementSource mm)
    from Cons.prems(1)[unfolded MeasurementSource] show ?thesis
    proof (cases rule: source_loop_measurement_cases)
      case (lookup_failed tmin tmax s1 err)
      with resolve_time_range_frame[OF lookup_failed(1)] Cons.prems(2) show ?thesis by simp
    next
      case (lookup_ok tmin tmax s1 gs)
      with resolve_time_range_frame[OF lookup_ok(1)] Cons.prems(2) Cons.IH[OF lookup_ok(3)]
      show ?thesis by (simp add: keyed_add_groups)
    qed
  qed
qed

text \<open>The error the loop stops with.\<close>

lemma source_loop_error:
  "source_loop env srcs s = (Some err, s') \<Longrightarrow>
     (\<exists>src \<in> set srcs. \<not> is_measurement src \<and> err = InvalidSourceType src)
     \<or> (\<exists>ev \<in> set (st_trace s'). is_lookup ev \<and> call_failed env ev err)"
proof (induction srcs arbitrary: s)
  case Nil
  then show ?case by simp
next
  case (Cons src rest)
  show ?case
  proof (cases src)
    case (OtherSource d)
    with Cons.prems show ?thesis by auto
  next
    case (MeasurementSource mm)
    from Cons.prems[unfolded MeasurementSource] show ?thesis
    proof (cases rule: source_loop_measurement_cases)
      case (lookup_failed tmin tmax s1 err')
      then show ?thesis by auto
    next
      case (lookup_ok tmin tmax s1 gs)
      from Cons.IH[OF lookup_ok(3)] show ?thesis by auto
    qed
  qed
qed

lemma source_loop_rejects:
  "source_loop env srcs s = (r, s') \<Longrightarrow> \<exists>src \<in> set srcs. \<not> is_measurement src \<Longrightarrow> r \<noteq> None"
proof (induction srcs arbitrary: s)
  case Nil
  then show ?case by simp
next
  case (Cons src rest)
  show ?case
  proof (cases src)
    case (OtherSource d)
    with Cons.prems show ?thesis by auto
  next
    case (MeasurementSource mm)
    with Cons.prems(2) have rest: "\<exists>src \<in> set rest. \<not> is_measurement src" by simp
    from Cons.prems(1)[unfolded MeasurementSource] show ?thesis
    proof (cases rule: source_loop_measurement_cases)
      case (lookup_failed tmin tmax s1 err')
      then show ?thesis by simp
    next
      case (lookup_ok tmin tmax s1 gs)
      from Cons.IH[OF lookup_ok(3) rest] show ?thesis .
    qed
  qed
qed

subsection \<open>The loop over the shards\<close>

lemma mapper_loop_trace:
  "mapper_loop env shs ms tr = (res, tr') \<Longrightarrow>
     \<exists>n \<le> length shs.
        tr' = tr @ map (\<lambda>sh. NewMapperCall (ID sh)) (filter (non_local env) (take n shs))
        \<and> ((\<exists>ms'. res = Inr ms') \<longrightarrow> n = length shs)"
proof (induction shs arbitrary: ms tr)
  case Nil
  then show ?case by auto
next
  case (Cons sh shs)
  show ?case
  proof (cases "OwnedBy sh (NodeID env)")
    case True
    with Cons.prems have "mapper_loop env shs (ms @ [ShardMapperImpl ShardMapper]) tr = (res, tr')"
      by simp
    from Cons.IH[OF this] obtain n where "n \<le> length shs"
      "tr' = tr @ map (\<lambda>sh. NewMapperCall (ID sh)) (filter (non_local env) (take n shs))"
      "(\<exists>ms'. res = Inr ms') \<longrightarrow> n = length shs" by blast
    moreover from True have "\<not> non_local env sh" by (simp add: non_local_def)
    ultimately show ?thesis by (intro exI[of _ "Suc n"]) simp
  next
    case False
    then have nl: "non_local env sh" by (simp add: non_local_def)
    show ?thesis
    proof (cases "NewMapper env (ID sh)")
      case (Inl err)
      with False nl Cons.prems show ?thesis by (intro exI[of _ "Suc 0"]) auto
    next
      case (Inr mapper)
      with False Cons.prems
      have "mapper_loop env shs (ms @ [mapper]) (tr @ [NewMapperCall (ID sh)]) = (res, tr')"
        by simp
      from Cons.IH[OF this] obtain n where "n \<le> length shs"
        "tr' = (tr @ [NewMapperCall (ID sh)]) @
           map (\<lambda>sh. NewMapperCall (ID sh)) (filter (non_local env) (take n shs))"
        "(\<exists>ms'. res = Inr ms') \<longrightarrow> n = length shs" by blast
      with nl show ?thesis by (intro exI[of _ "Suc n"]) simp
    qed
  qed
qed

lemma mapper_loop_mappers:
  "mapper_loop env shs ms tr = (Inr ms', tr') \<Longrightarrow>
     \<exists>new. ms' = ms @ new \<and> list_all2 (mapper_for env) shs new"
proof (induction shs arbitrary: ms tr)
  case Nil
  then show ?case by simp
next
  case (Cons sh shs)
  show ?case
  proof (cases "OwnedBy sh (NodeID env)")
    case True
    with Cons.prems have "mapper_loop env shs (ms @ [ShardMapperImpl ShardMapper]) tr = (Inr ms', tr')"
      by simp
    from Cons.IH[OF this] obtain new where
      "ms' = (ms @ [ShardMapperImpl ShardMapper]) @ new" "list_all2 (mapper_for env) shs new"
      by blast
    moreover from True have "mapper_for env sh (ShardMapperImpl ShardMapper)"
      by (simp add: mapper_for_def)
    ultimately show ?thesis
      by (intro exI[of _ "ShardMapperImpl ShardMapper # new"]) simp
  next
    case False
    show ?thesis
    proof (cases "NewMapper env (ID sh)")
      case (Inl err)
      with False Cons.prems show ?thesis by simp
    next
      case (Inr mapper)
      with False Cons.prems
      have "mapper_loop env shs (ms @ [mapper]) (tr @ [NewMapperCall (ID sh)]) = (Inr ms', tr')"
        by simp
      from Cons.IH[OF this] obtain new where
        "ms' = (ms @ [mapper]) @ new" "list_all2 (mapper_for env) shs new"
        by blast
      moreover from False Inr have "mapper_for env sh mapper"
        by (simp add: mapper_for_def)
      ultimately show ?thesis
        by (intro exI[of _ "mapper # new"]) simp
    qed
  qed
qed

text \<open>A failed call of NewMapper ends the loop with the error of that call.\<close>

lemma mapper_loop_failed_call:
  "mapper_loop env shs ms tr = (res, tr') \<Longrightarrow>
     \<exists>new. tr' = tr @ new \<and> (\<forall>ev \<in> set new. \<forall>err. call_failed env ev err \<longrightarrow> res = Inl err)"
proof (induction shs arbitrary: ms tr)
  case Nil
  then show ?case by simp
next
  case (Cons sh shs)
  show ?case
  proof (cases "OwnedBy sh (NodeID env)")
    case True
    with Cons.prems have "mapper_loop env shs (ms @ [ShardMapperImpl ShardMapper]) tr = (res, tr')"
      by simp
    from Cons.IH[OF this] show ?thesis .
  next
    case False
    show ?thesis
    proof (cases "NewMapper env (ID sh)")
      case (Inl err)
      with False Cons.prems show ?thesis
        by (intro exI[of _ "[NewMapperCall (ID sh)]"]) auto
    next
      case (Inr mapper)
      with False Cons.prems
      have "mapper_loop env shs (ms @ [mapper]) (tr @ [NewMapperCall (ID sh)]) = (res, tr')"
        by simp
      from Cons.IH[OF this] obtain new where
        "tr' = (tr @ [NewMapperCall (ID sh)]) @ new"
        "\<forall>ev \<in> set new. \<forall>err. call_failed env ev err \<longrightarrow> res = Inl err"
        by blast
      with Inr show ?thesis
        by (intro exI[of _ "NewMapperCall (ID sh) # new"]) auto
    qed
  qed
qed

text \<open>A shard whose mapper the cluster cannot build makes the loop fail.\<close>

lemma mapper_loop_unreachable:
  "mapper_loop env shs ms tr = (res, tr') \<Longrightarrow>
     \<exists>sh \<in> set shs. non_local env sh \<and> (\<exists>err. NewMapper env (ID sh) = Inl err) \<Longrightarrow>
     \<exists>sh \<in> set shs. non_local env sh \<and> (\<exists>err. NewMapper env (ID sh) = Inl err \<and> res = Inl err)"
proof (induction shs arbitrary: ms tr)
  case Nil
  then show ?case by simp
next
  case (Cons sh shs)
  show ?case
  proof (cases "OwnedBy sh (NodeID env)")
    case True
    with Cons.prems(1)
    have run: "mapper_loop env shs (ms @ [ShardMapperImpl ShardMapper]) tr = (res, tr')"
      by simp
    from True Cons.prems(2)
    have "\<exists>sh \<in> set shs. non_local env sh \<and> (\<exists>err. NewMapper env (ID sh) = Inl err)"
      by (auto simp: non_local_def)
    from Cons.IH[OF run this] show ?thesis by auto
  next
    case False
    show ?thesis
    proof (cases "NewMapper env (ID sh)")
      case (Inl err)
      with False Cons.prems(1) show ?thesis by (auto simp: non_local_def)
    next
      case (Inr mapper)
      with False Cons.prems(1)
      have run: "mapper_loop env shs (ms @ [mapper]) (tr @ [NewMapperCall (ID sh)]) = (res, tr')"
        by simp
      from Inr Cons.prems(2)
      have "\<exists>sh \<in> set shs. non_local env sh \<and> (\<exists>err. NewMapper env (ID sh) = Inl err)"
        by auto
      from Cons.IH[OF run this] show ?thesis by auto
    qed
  qed
qed

subsection \<open>Counting calls\<close>

lemma count_list_distinct: "distinct xs \<Longrightarrow> count_list xs x = (if x \<in> set xs then 1 else 0)"
  by (induction xs) auto

lemma count_lookups: "list_all is_lookup tr \<Longrightarrow> count_list tr (NewMapperCall k) = 0"
  by (induction tr) auto

lemma count_calls_distinct:
  "distinct (map ID xs) \<Longrightarrow>
     count_list (map (\<lambda>sh. NewMapperCall (ID sh)) xs) (NewMapperCall k)
       = (if k \<in> ID ` set xs then 1 else 0)"
  by (induction xs) auto

lemma count_new_mapper_calls:
  assumes "distinct (map ID shs)"
  shows "count_list (map (\<lambda>sh. NewMapperCall (ID sh)) (filter P (take n shs))) (NewMapperCall k)
         = (if k \<in> ID ` set (filter P (take n shs)) then 1 else 0)"
proof -
  have "distinct (take n (map ID shs))"
    using assms by (rule distinct_take)
  then have "distinct (map ID (take n shs))"
    by (simp add: take_map)
  then have "distinct (map ID (filter P (take n shs)))"
    by (rule distinct_map_filter)
  then show ?thesis by (rule count_calls_distinct)
qed

subsection \<open>Plan, by the way it returns\<close>

lemma Plan_cases:
  obtains (source_error) err s where
      "source_loop env (Sources stmt) (initial_state stmt) = (Some err, s)"
      "Plan env stmt cs = (Inl err, stmt\<lparr>Condition := st_condition s\<rparr>, st_trace s)"
  | (mapper_error) s err tr where
      "source_loop env (Sources stmt) (initial_state stmt) = (None, s)"
      "mapper_loop env (map snd (range_order (range_seed env) (st_shards s))) [] (st_trace s)
         = (Inl err, tr)"
      "Plan env stmt cs = (Inl err, stmt\<lparr>Condition := st_condition s\<rparr>, tr)"
  | (success) s ms tr where
      "source_loop env (Sources stmt) (initial_state stmt) = (None, s)"
      "mapper_loop env (map snd (range_order (range_seed env) (st_shards s))) [] (st_trace s)
         = (Inr ms, tr)"
      "Plan env stmt cs = (Inr (NewExecutor ms), stmt\<lparr>Condition := st_condition s\<rparr>, tr)"
proof -
  obtain r s where sl: "source_loop env (Sources stmt) (initial_state stmt) = (r, s)"
    by (metis prod.exhaust)
  show thesis
  proof (cases r)
    case (Some err)
    with sl show thesis by (intro source_error[of err s]) (simp_all add: Plan_def)
  next
    case None
    obtain res tr where ml:
      "mapper_loop env (map snd (range_order (range_seed env) (st_shards s))) [] (st_trace s)
         = (res, tr)"
      by (metis prod.exhaust)
    show thesis
    proof (cases res)
      case (Inl err)
      with sl None ml show thesis by (intro mapper_error[of s err tr]) (simp_all add: Plan_def)
    next
      case (Inr ms)
      with sl None ml show thesis by (intro success[of s ms tr]) (simp_all add: Plan_def)
    qed
  qed
qed

lemma initial_state_simps:
  "st_trace (initial_state stmt) = []" "st_shards (initial_state stmt) = []"
  "st_condition (initial_state stmt) = Condition stmt" "st_ticks (initial_state stmt) = 0"
  by (simp_all add: initial_state_def)

lemma keyed_Nil: "keyed []"
  by (simp add: keyed_def)

lemmas plan_eval =
  plan_result_def plan_trace_def plan_statement_def Plan_def resolved_shards_def
  initial_state_def resolve_time_range_def time_Now_def IsZero_def zero_time_def Unix_def
  later_min_def earlier_max_def OwnedBy_def NewExecutor_def
  covering_shard_ids_def event_shard_ids_def

lemmas scenario_defs =
  scenario_env_def unreachable_env_def outsider_env_def offline_env_def scenario_catalog_def
  scenario_stmt_def overlap_stmt_def mixed_stmt_def inverted_stmt_def unbounded_stmt_def
  future_stmt_def
  cpu_def mem_def

lemma covering_shard_ids_append:
  "covering_shard_ids env (tr @ tr') = covering_shard_ids env tr \<union> covering_shard_ids env tr'"
  by (simp add: covering_shard_ids_def)

lemma covering_shard_ids_calls:
  "covering_shard_ids env (map (\<lambda>sh. NewMapperCall (ID sh)) shs) = {}"
  by (induction shs) (simp_all add: covering_shard_ids_def event_shard_ids_def)

text \<open>The facts about the two loops that the theorems on Plan share.\<close>

lemma source_loop_initial:
  assumes "source_loop env (Sources stmt) (initial_state stmt) = (r, s)"
  shows "keyed (st_shards s)" and "list_all is_lookup (st_trace s)"
    and "fst ` set (st_shards s) = covering_shard_ids env (st_trace s)"
    and "\<forall>ev \<in> set (st_trace s). \<forall>err. call_failed env ev err \<longrightarrow> r = Some err"
    and "resolved_shards env stmt = st_shards s"
proof -
  show "keyed (st_shards s)"
    using source_loop_keyed[OF assms] by (simp add: initial_state_simps keyed_Nil)
  from source_loop_trace[OF assms] obtain new where
    "st_trace s = st_trace (initial_state stmt) @ new" "list_all is_lookup new"
    "fst ` set (st_shards s) = fst ` set (st_shards (initial_state stmt)) \<union> covering_shard_ids env new"
    "\<forall>ev \<in> set new. \<forall>err. call_failed env ev err \<longrightarrow> r = Some err"
    by blast
  then show "list_all is_lookup (st_trace s)"
    and "fst ` set (st_shards s) = covering_shard_ids env (st_trace s)"
    and "\<forall>ev \<in> set (st_trace s). \<forall>err. call_failed env ev err \<longrightarrow> r = Some err"
    by (simp_all add: initial_state_simps)
  show "resolved_shards env stmt = st_shards s"
    using assms by (simp add: resolved_shards_def)
qed

lemma enumerated_shards:
  assumes "keyed m"
  shows "distinct (map ID (map snd (range_order seed m)))"
    and "ID ` set (map snd (range_order seed m)) = fst ` set m"
    and "set (map snd (range_order seed m)) = snd ` set m"
    and "length (map snd (range_order seed m)) = length m"
proof -
  have k: "keyed (range_order seed m)" using assms by (rule keyed_range_order)
  have ids: "map ID (map snd (range_order seed m)) = map fst (range_order seed m)"
    using k by (rule keyed_ids)
  show "distinct (map ID (map snd (range_order seed m)))"
    using k by (simp only: ids keyed_def)
  have "ID ` set (map snd (range_order seed m)) = set (map ID (map snd (range_order seed m)))"
    by (simp only: set_map)
  also have "\<dots> = set (map fst (range_order seed m))"
    by (simp only: ids)
  also have "\<dots> = fst ` set m"
    by (simp only: set_map set_range_order)
  finally show "ID ` set (map snd (range_order seed m)) = fst ` set m" .
  show "set (map snd (range_order seed m)) = snd ` set m"
    by (simp add: set_range_order)
  show "length (map snd (range_order seed m)) = length m"
    using mset_eq_length[OF mset_range_order[of seed m]] by simp
qed

lemma keyed_unique: "keyed m \<Longrightarrow> (k, sh) \<in> set m \<Longrightarrow> (k, sh') \<in> set m \<Longrightarrow> sh = sh'"
  by (rule eq_key_imp_eq_value[of m k sh sh']) (simp_all add: keyed_def)

lemma keyed_entry: "keyed m \<Longrightarrow> (k, sh) \<in> set m \<Longrightarrow> ID sh = k"
  unfolding keyed_def list_all_iff by auto

subsection \<open>The log of Plan\<close>

lemma lookup_ranges_append: "lookup_ranges (tr @ tr') = lookup_ranges tr @ lookup_ranges tr'"
  by (induction tr rule: lookup_ranges.induct) simp_all

lemma lookup_ranges_calls: "lookup_ranges (map (\<lambda>sh. NewMapperCall (ID sh)) shs) = []"
  by (induction shs) simp_all

lemma Plan_trace_shape:
  assumes "source_loop env (Sources stmt) (initial_state stmt) = (r, s)"
  shows "\<exists>n \<le> length (st_shards s).
           plan_trace env stmt cs = st_trace s @
             map (\<lambda>sh. NewMapperCall (ID sh))
               (filter (non_local env)
                  (take n (map snd (range_order (range_seed env) (st_shards s)))))
           \<and> ((\<exists>ex. plan_result env stmt cs = Inr ex) \<longrightarrow> n = length (st_shards s))"
proof (cases rule: Plan_cases[of env stmt cs])
  case (source_error err s0)
  with assms show ?thesis
    by (intro exI[of _ 0]) (simp add: plan_trace_def plan_result_def)
next
  case (mapper_error s0 err tr)
  with assms have s0: "s0 = s" by simp
  from mapper_loop_trace[OF mapper_error(2)] obtain n where
    "n \<le> length (map snd (range_order (range_seed env) (st_shards s0)))"
    "tr = st_trace s0 @ map (\<lambda>sh. NewMapperCall (ID sh))
       (filter (non_local env) (take n (map snd (range_order (range_seed env) (st_shards s0)))))"
    by blast
  with mapper_error(3) enumerated_shards(4)[OF source_loop_initial(1)[OF assms], of "range_seed env"]
  show ?thesis
    by (intro exI[of _ n]) (simp add: plan_trace_def plan_result_def s0)
next
  case (success s0 ms tr)
  with assms have s0: "s0 = s" by simp
  from mapper_loop_trace[OF success(2)] obtain n where
    "n \<le> length (map snd (range_order (range_seed env) (st_shards s0)))"
    "tr = st_trace s0 @ map (\<lambda>sh. NewMapperCall (ID sh))
       (filter (non_local env) (take n (map snd (range_order (range_seed env) (st_shards s0)))))"
    "n = length (map snd (range_order (range_seed env) (st_shards s0)))"
    by blast
  with success(3) enumerated_shards(4)[OF source_loop_initial(1)[OF assms], of "range_seed env"]
  show ?thesis
    by (intro exI[of _ n]) (simp add: plan_trace_def plan_result_def s0)
qed

lemma Plan_statement_after:
  assumes "source_loop env (Sources stmt) (initial_state stmt) = (r, s)"
  shows "plan_statement env stmt cs = stmt\<lparr>Condition := st_condition s\<rparr>"
  using assms by (cases rule: Plan_cases[of env stmt cs]) (simp_all add: plan_statement_def)

subsection \<open>The loop over the sources, step by step\<close>

lemma call_ok_iff: "call_ok env ev \<longleftrightarrow> \<not> (\<exists>err. call_failed env ev err)"
  by (cases ev) (auto split: sum.splits)

lemma resolve_time_range_exact:
  assumes "resolve_time_range env s = ((rmin, rmax), s1)"
  defines "c' \<equiv> Reduce env (st_condition s) (clock env (st_ticks s))"
  shows "st_condition s1 = c'"
    and "rmin = (if IsZero (fst (TimeRange env c')) then Unix 0 0 else fst (TimeRange env c'))"
    and "rmax = (if IsZero (snd (TimeRange env c')) then clock env (Suc (st_ticks s))
                 else snd (TimeRange env c'))"
    and "st_ticks s1 = (if IsZero (snd (TimeRange env c')) then st_ticks s + 2 else st_ticks s + 1)"
    and "st_trace s1 = st_trace s" and "st_shards s1 = st_shards s"
  using assms(1) unfolding c'_def
  by (auto simp: resolve_time_range_def time_Now_def Let_def split: prod.splits if_splits)

lemma source_loop_steps:
  "source_loop env srcs s = (r, s') \<Longrightarrow>
     st_trace s' = st_trace s @
        map step_lookup (performed env (source_steps env srcs (st_condition s) (st_ticks s)))
     \<and> st_condition s' = foldl (Reduce env) (st_condition s)
        (map step_now (performed env (source_steps env srcs (st_condition s) (st_ticks s))))"
proof (induction srcs arbitrary: s)
  case Nil
  then show ?case by simp
next
  case (Cons src rest)
  show ?case
  proof (cases src)
    case (OtherSource d)
    with Cons.prems show ?thesis by simp
  next
    case (MeasurementSource mm)
    from Cons.prems[unfolded MeasurementSource] show ?thesis
    proof (cases rule: source_loop_measurement_cases)
      case (lookup_failed rmin rmax s1 err)
      note ex = resolve_time_range_exact[OF lookup_failed(1)]
      let ?ev = "LookupCall (Database mm) (RetentionPolicy mm) rmin rmax"
      have bad: "\<not> call_ok env ?ev" using lookup_failed(2) by simp
      have ev: "?ev = step_lookup (hd (source_steps env (MeasurementSource mm # rest)
                    (st_condition s) (st_ticks s)))"
        using ex(2,3) by (simp add: Let_def)
      show ?thesis
        using lookup_failed(4) ex bad MeasurementSource
        by (simp add: Let_def)
    next
      case (lookup_ok rmin rmax s1 gs)
      note ex = resolve_time_range_exact[OF lookup_ok(1)]
      let ?ev = "LookupCall (Database mm) (RetentionPolicy mm) rmin rmax"
      have good: "call_ok env ?ev" using lookup_ok(2) by simp
      from Cons.IH[OF lookup_ok(3)] ex good MeasurementSource
      show ?thesis by (simp add: Let_def)
    qed
  qed
qed

lemma performed_all: "list_all (\<lambda>st. call_ok env (step_lookup st)) sts \<Longrightarrow> performed env sts = sts"
  by (induction sts) simp_all

lemma performed_ok_all:
  "list_all (\<lambda>st. call_ok env (step_lookup st)) (performed env sts) \<Longrightarrow> performed env sts = sts"
  by (induction sts) (auto split: if_splits)

lemma length_performed: "length (performed env sts) \<le> length sts"
  by (induction sts) simp_all

lemma length_source_steps:
  "length (source_steps env srcs c n) = length (takeWhile is_measurement srcs)"
  by (induction env srcs c n rule: source_steps.induct) (simp_all add: Let_def)

lemma source_loop_succeeds:
  "\<forall>src \<in> set srcs. is_measurement src \<Longrightarrow>
   list_all (\<lambda>st. call_ok env (step_lookup st)) (source_steps env srcs (st_condition s) (st_ticks s)) \<Longrightarrow>
   \<exists>s'. source_loop env srcs s = (None, s')"
proof (induction srcs arbitrary: s)
  case Nil
  then show ?case by simp
next
  case (Cons src rest)
  then obtain mm where mm: "src = MeasurementSource mm" by (cases src) auto
  obtain r s' where run: "source_loop env (MeasurementSource mm # rest) s = (r, s')"
    by (metis prod.exhaust)
  from run have "\<exists>s'. source_loop env (MeasurementSource mm # rest) s = (None, s')"
  proof (cases rule: source_loop_measurement_cases)
    case (lookup_failed rmin rmax s1 err)
    note ex = resolve_time_range_exact[OF lookup_failed(1)]
    from Cons.prems(2) lookup_failed(2) ex(2,3) show ?thesis
      by (simp add: mm Let_def)
  next
    case (lookup_ok rmin rmax s1 gs)
    note ex = resolve_time_range_exact[OF lookup_ok(1)]
    let ?s2 = "s1\<lparr>st_trace := st_trace s1 @ [LookupCall (Database mm) (RetentionPolicy mm) rmin rmax],
             st_shards := add_groups gs (st_shards s1)\<rparr>"
    have "\<exists>s'. source_loop env rest ?s2 = (None, s')"
      using Cons.prems ex by (intro Cons.IH) (simp_all add: mm Let_def)
    with lookup_ok(3) run show ?thesis by auto
  qed
  then show ?case by (simp add: mm)
qed

lemma mapper_loop_succeeds:
  "\<forall>sh \<in> set shs. non_local env sh \<longrightarrow> call_ok env (NewMapperCall (ID sh)) \<Longrightarrow>
   \<exists>ms' tr'. mapper_loop env shs ms tr = (Inr ms', tr')"
proof (induction shs arbitrary: ms tr)
  case Nil
  then show ?case by simp
next
  case (Cons sh shs)
  show ?case
  proof (cases "OwnedBy sh (NodeID env)")
    case True
    with Cons.IH[of "ms @ [ShardMapperImpl ShardMapper]" tr] Cons.prems show ?thesis by simp
  next
    case False
    then have "non_local env sh" by (simp add: non_local_def)
    with Cons.prems obtain mapper where m: "NewMapper env (ID sh) = Inr mapper"
      by (auto split: sum.splits)
    with False Cons.IH[of "ms @ [mapper]" "tr @ [NewMapperCall (ID sh)]"] Cons.prems
    show ?thesis by simp
  qed
qed

lemmas steps_eval = all_steps_def plan_steps_def source_shard_ids_def Let_def
  two_db_catalog_def two_db_env_def cpu2_def two_db_stmt_def
  recording_env_def recording_stmt_def

lemma source_loop_plan_steps:
  assumes "source_loop env (Sources stmt) (initial_state stmt) = (r, s)"
  shows "st_trace s = map step_lookup (plan_steps env stmt)"
    and "st_condition s = foldl (Reduce env) (Condition stmt) (map step_now (plan_steps env stmt))"
  using source_loop_steps[OF assms]
  by (simp_all add: initial_state_simps plan_steps_def all_steps_def)

lemma source_loop_all_steps:
  assumes "source_loop env (Sources stmt) (initial_state stmt) = (None, s)"
  shows "plan_steps env stmt = all_steps env stmt"
    and "list_all (\<lambda>st. call_ok env (step_lookup st)) (all_steps env stmt)"
    and "\<forall>src \<in> set (Sources stmt). is_measurement src"
    and "length (all_steps env stmt) = length (Sources stmt)"
proof -
  have "\<forall>ev \<in> set (st_trace s). call_ok env ev"
    using source_loop_initial(4)[OF assms] by (auto simp: call_ok_iff)
  then have ok: "list_all (\<lambda>st. call_ok env (step_lookup st)) (performed env (all_steps env stmt))"
    by (simp add: source_loop_plan_steps(1)[OF assms] plan_steps_def list_all_iff)
  then show eq: "plan_steps env stmt = all_steps env stmt"
    unfolding plan_steps_def by (rule performed_ok_all)
  from ok show "list_all (\<lambda>st. call_ok env (step_lookup st)) (all_steps env stmt)"
    using eq by (simp add: plan_steps_def)
  show m: "\<forall>src \<in> set (Sources stmt). is_measurement src"
    using source_loop_rejects[OF assms] by blast
  then have tw: "takeWhile is_measurement (Sources stmt) = Sources stmt"
    by (rule takeWhile_eq_all_conv[THEN iffD2])
  show "length (all_steps env stmt) = length (Sources stmt)"
    by (simp only: all_steps_def length_source_steps tw)
qed

lemma filter_lookup_calls: "filter is_lookup (map (\<lambda>sh. NewMapperCall (ID sh)) shs) = []"
  by (induction shs) simp_all

lemma filter_lookups: "list_all is_lookup tr \<Longrightarrow> filter is_lookup tr = tr"
  by (induction tr) simp_all

lemma Plan_lookups:
  "filter is_lookup (plan_trace env stmt cs) = map step_lookup (plan_steps env stmt)"
proof -
  obtain r s where sl: "source_loop env (Sources stmt) (initial_state stmt) = (r, s)"
    by (metis prod.exhaust)
  from Plan_trace_shape[OF sl, of cs] obtain n where
    "plan_trace env stmt cs = st_trace s @
       map (\<lambda>sh. NewMapperCall (ID sh))
         (filter (non_local env) (take n (map snd (range_order (range_seed env) (st_shards s)))))"
    by blast
  then have "filter is_lookup (plan_trace env stmt cs) = st_trace s"
    using source_loop_initial(2)[OF sl] by (simp add: filter_lookup_calls filter_lookups)
  with source_loop_plan_steps(1)[OF sl] show ?thesis by simp
qed

lemma lookup_ranges_filter: "lookup_ranges (filter is_lookup tr) = lookup_ranges tr"
  by (induction tr rule: lookup_ranges.induct) simp_all

lemma epoch_not_zero: "\<not> IsZero (Unix 0 0)"
  by (simp add: IsZero_def Unix_def zero_time_def)

lemma steps_min_not_zero:
  "list_all (\<lambda>(rmin, rmax). \<not> IsZero rmin)
     (lookup_ranges (map step_lookup (source_steps env srcs c n)))"
  by (induction env srcs c n rule: source_steps.induct) (simp_all add: Let_def epoch_not_zero)

lemma lookup_ranges_performed:
  "list_all P (lookup_ranges (map step_lookup sts)) \<Longrightarrow>
   list_all P (lookup_ranges (map step_lookup (performed env sts)))"
proof (induction sts)
  case Nil
  then show ?case by simp
next
  case (Cons st sts)
  then show ?case by (cases "step_lookup st") simp_all
qed

lemma first_step:
  assumes "Sources stmt = MeasurementSource mm # rest"
    and "TimeRange env (Reduce env (Condition stmt) (clock env 0)) = (tmin, tmax)"
  shows "\<exists>tr. lookup_ranges (plan_trace env stmt cs) =
           (if IsZero tmin then Unix 0 0 else tmin, if IsZero tmax then clock env 1 else tmax) # tr"
proof -
  have "\<exists>sts. plan_steps env stmt =
          \<lparr>step_now = clock env 0, step_condition = Reduce env (Condition stmt) (clock env 0),
           step_lookup = LookupCall (Database mm) (RetentionPolicy mm)
             (if IsZero tmin then Unix 0 0 else tmin)
             (if IsZero tmax then clock env 1 else tmax)\<rparr> # sts"
    using assms by (simp add: plan_steps_def all_steps_def Let_def)
  then obtain sts where sts: "plan_steps env stmt =
          \<lparr>step_now = clock env 0, step_condition = Reduce env (Condition stmt) (clock env 0),
           step_lookup = LookupCall (Database mm) (RetentionPolicy mm)
             (if IsZero tmin then Unix 0 0 else tmin)
             (if IsZero tmax then clock env 1 else tmax)\<rparr> # sts"
    by blast
  have "map step_lookup (plan_steps env stmt) =
       LookupCall (Database mm) (RetentionPolicy mm)
             (if IsZero tmin then Unix 0 0 else tmin)
             (if IsZero tmax then clock env 1 else tmax) # map step_lookup sts"
    unfolding sts by simp
  then have "lookup_ranges (filter is_lookup (plan_trace env stmt cs)) =
      (if IsZero tmin then Unix 0 0 else tmin, if IsZero tmax then clock env 1 else tmax)
        # lookup_ranges (map step_lookup sts)"
    by (simp add: Plan_lookups)
  then show ?thesis by (simp add: lookup_ranges_filter)
qed

section \<open>Plan: sources\<close>

text \<open>
  Claim C4. For every statement with at least one source that is not a measurement, Plan
  returns an error and no Executor: the error is the invalid-source error of such a source,
  or the error of a catalog lookup made for an earlier source. No mapper is asked for (the
  log holds catalog lookups only), so there is nothing to execute.
\<close>

theorem Plan_rejects_non_measurement:
  assumes "\<exists>src \<in> set (Sources stmt). \<not> is_measurement src"
  shows "\<exists>err. plan_result env stmt cs = Inl err
           \<and> ((\<exists>src \<in> set (Sources stmt). \<not> is_measurement src \<and> err = InvalidSourceType src)
              \<or> (\<exists>ev \<in> set (plan_trace env stmt cs). is_lookup ev \<and> call_failed env ev err))
           \<and> list_all is_lookup (plan_trace env stmt cs)"
proof (cases rule: Plan_cases[of env stmt cs])
  case (source_error err s)
  from source_loop_error[OF source_error(1)] source_loop_initial(2)[OF source_error(1)]
    source_error(2)
  show ?thesis by (simp add: plan_result_def plan_trace_def)
next
  case (mapper_error s err tr)
  with source_loop_rejects[OF mapper_error(1) assms] show ?thesis by simp
next
  case (success s ms tr)
  with source_loop_rejects[OF success(1) assms] show ?thesis by simp
qed

theorem Plan_rejects_non_measurement_witness:
  "list_ex (\<lambda>src. \<not> is_measurement src) (Sources mixed_stmt)
   \<and> plan_result scenario_env mixed_stmt 0 = Inl (InvalidSourceType (OtherSource ''join''))
   \<and> list_all is_lookup (plan_trace scenario_env mixed_stmt 0)"
proof -
  have h: "\<exists>src \<in> set (Sources mixed_stmt). \<not> is_measurement src"
    by (simp add: mixed_stmt_def)
  have r: "plan_result scenario_env mixed_stmt 0 = Inl (InvalidSourceType (OtherSource ''join''))"
    by (simp add: plan_eval scenario_defs)
  from Plan_rejects_non_measurement[OF h, of scenario_env 0]
  have t: "list_all is_lookup (plan_trace scenario_env mixed_stmt 0)" by blast
  have "list_ex (\<lambda>src. \<not> is_measurement src) (Sources mixed_stmt)"
    by (simp add: mixed_stmt_def)
  with r t show ?thesis by (intro conjI)

qed

section \<open>Plan: one mapper for every shard\<close>

text \<open>
  Claim C2, as amended. Whenever Plan returns an Executor, every source of the statement is a
  measurement, the catalog was asked once for every source and answered every time, and the
  Executor holds exactly one mapper for every distinct shard id in the union of the shard
  groups covering the sources: the mappers are, one by one, the mappers of a list of shards
  with distinct ids, whose ids are exactly that union. And Plan does return an Executor when
  every source is a measurement, the lookup of every source succeeds, and NewMapper succeeds
  for every resolved shard that is not local.
\<close>

theorem Plan_one_mapper_per_shard:
  "(\<forall>ex. plan_result env stmt cs = Inr ex \<longrightarrow>
       (\<forall>src \<in> set (Sources stmt). is_measurement src)
       \<and> length (all_steps env stmt) = length (Sources stmt)
       \<and> list_all (\<lambda>st. call_ok env (step_lookup st)) (all_steps env stmt)
       \<and> (\<exists>shs. list_all2 (mapper_for env) shs (mappers ex) \<and> distinct (map ID shs)
              \<and> ID ` set shs = source_shard_ids env stmt)
       \<and> length (mappers ex) = card (source_shard_ids env stmt))
   \<and> ((\<forall>src \<in> set (Sources stmt). is_measurement src)
       \<and> list_all (\<lambda>st. call_ok env (step_lookup st)) (all_steps env stmt)
       \<and> (\<forall>p \<in> set (resolved_shards env stmt).
              non_local env (snd p) \<longrightarrow> call_ok env (NewMapperCall (ID (snd p))))
       \<longrightarrow> (\<exists>ex. plan_result env stmt cs = Inr ex))"
proof (intro conjI allI impI)
  fix ex
  assume res: "plan_result env stmt cs = Inr ex"
  have "(\<forall>src \<in> set (Sources stmt). is_measurement src)
       \<and> length (all_steps env stmt) = length (Sources stmt)
       \<and> list_all (\<lambda>st. call_ok env (step_lookup st)) (all_steps env stmt)
       \<and> (\<exists>shs. list_all2 (mapper_for env) shs (mappers ex) \<and> distinct (map ID shs)
              \<and> ID ` set shs = source_shard_ids env stmt)
       \<and> length (mappers ex) = card (source_shard_ids env stmt)"
  proof (cases rule: Plan_cases[of env stmt cs])
    case (source_error err s)
    with res show ?thesis by (simp add: plan_result_def)
  next
    case (mapper_error s err tr)
    with res show ?thesis by (simp add: plan_result_def)
  next
    case (success s ms tr)
    let ?shs = "map snd (range_order (range_seed env) (st_shards s))"
    note sl = source_loop_initial[OF success(1)]
    note st = source_loop_all_steps[OF success(1)]
    note en = enumerated_shards[OF sl(1), of "range_seed env"]
    have ex: "ex = NewExecutor ms" using res success(3) by (simp add: plan_result_def)
    from mapper_loop_mappers[OF success(2)] have ma: "list_all2 (mapper_for env) ?shs ms"
      by simp
    have cov: "source_shard_ids env stmt = fst ` set (st_shards s)"
      using sl(3) source_loop_plan_steps(1)[OF success(1)] st(1)
      by (simp add: source_shard_ids_def)
    have "card (fst ` set (st_shards s)) = length (st_shards s)"
      using sl(1) distinct_card[of "map fst (st_shards s)"] by (simp add: keyed_def)
    moreover have "length ms = length ?shs"
      using list_all2_lengthD[OF ma] by simp
    ultimately have len: "length (mappers ex) = card (source_shard_ids env stmt)"
      using en(4) by (simp add: ex NewExecutor_def cov)
    have "list_all2 (mapper_for env) ?shs (mappers ex) \<and> distinct (map ID ?shs)
          \<and> ID ` set ?shs = source_shard_ids env stmt"
      using ma en(1) en(2) by (simp add: ex NewExecutor_def cov)
    with st(2,3,4) len show ?thesis by blast
  qed
  then show "\<forall>src \<in> set (Sources stmt). is_measurement src"
    and "length (all_steps env stmt) = length (Sources stmt)"
    and "list_all (\<lambda>st. call_ok env (step_lookup st)) (all_steps env stmt)"
    and "\<exists>shs. list_all2 (mapper_for env) shs (mappers ex) \<and> distinct (map ID shs)
              \<and> ID ` set shs = source_shard_ids env stmt"
    and "length (mappers ex) = card (source_shard_ids env stmt)"
    by blast+
next
  assume h: "(\<forall>src \<in> set (Sources stmt). is_measurement src)
       \<and> list_all (\<lambda>st. call_ok env (step_lookup st)) (all_steps env stmt)
       \<and> (\<forall>p \<in> set (resolved_shards env stmt).
              non_local env (snd p) \<longrightarrow> call_ok env (NewMapperCall (ID (snd p))))"
  then have "\<exists>s. source_loop env (Sources stmt) (initial_state stmt) = (None, s)"
    by (intro source_loop_succeeds) (simp_all add: initial_state_simps all_steps_def)
  then obtain s where sl: "source_loop env (Sources stmt) (initial_state stmt) = (None, s)"
    by blast
  let ?shs = "map snd (range_order (range_seed env) (st_shards s))"
  have "resolved_shards env stmt = st_shards s"
    using sl by (simp add: resolved_shards_def)
  with h have "\<forall>sh \<in> set ?shs. non_local env sh \<longrightarrow> call_ok env (NewMapperCall (ID sh))"
    by (auto simp: set_range_order)
  from mapper_loop_succeeds[OF this, of "[]" "st_trace s"] obtain ms tr where
    "mapper_loop env ?shs [] (st_trace s) = (Inr ms, tr)" by blast
  with sl show "\<exists>ex. plan_result env stmt cs = Inr ex"
    by (simp add: plan_result_def Plan_def)
qed

theorem Plan_one_mapper_per_shard_witness:
  "plan_result two_db_env two_db_stmt 0
     = Inr \<lparr>mappers = [ShardMapperImpl ShardMapper, OtherImpl 2, OtherImpl 3]\<rparr>
   \<and> map step_lookup (all_steps two_db_env two_db_stmt)
       = [LookupCall ''db'' ''rp'' 10 1000, LookupCall ''db2'' ''rp'' 10 1000]
   \<and> source_shard_ids two_db_env two_db_stmt = {1, 2, 3}
   \<and> length (mappers \<lparr>mappers = [ShardMapperImpl ShardMapper, OtherImpl 2, OtherImpl 3]\<rparr>)
       = card (source_shard_ids two_db_env two_db_stmt)"
proof -
  have h: "plan_result two_db_env two_db_stmt 0
             = Inr \<lparr>mappers = [ShardMapperImpl ShardMapper, OtherImpl 2, OtherImpl 3]\<rparr>"
    by (simp add: plan_eval scenario_defs steps_eval)
  have l: "map step_lookup (all_steps two_db_env two_db_stmt)
       = [LookupCall ''db'' ''rp'' 10 1000, LookupCall ''db2'' ''rp'' 10 1000]"
    by (simp add: plan_eval scenario_defs steps_eval)
  have c: "source_shard_ids two_db_env two_db_stmt = {1, 2, 3}"
    unfolding source_shard_ids_def l
    by (simp add: plan_eval scenario_defs steps_eval)
  from Plan_one_mapper_per_shard[of two_db_env two_db_stmt 0] h
  have "length (mappers \<lparr>mappers = [ShardMapperImpl ShardMapper, OtherImpl 2, OtherImpl 3]\<rparr>)
          = card (source_shard_ids two_db_env two_db_stmt)"
    by blast
  with h l c show ?thesis by (intro conjI)
qed

theorem Plan_one_mapper_per_shard_counterexample:
  "list_all is_measurement (Sources scenario_stmt)
   \<and> source_shard_ids unreachable_env scenario_stmt = {1, 2}
   \<and> plan_result unreachable_env scenario_stmt 0 = Inl (CollaboratorError ''unreachable'')"
proof (intro conjI)
  show "list_all is_measurement (Sources scenario_stmt)"
    by (simp add: scenario_defs)
  show "source_shard_ids unreachable_env scenario_stmt = {1, 2}"
    by (simp add: plan_eval scenario_defs steps_eval)
  show "plan_result unreachable_env scenario_stmt 0 = Inl (CollaboratorError ''unreachable'')"
    by (simp add: plan_eval scenario_defs)
qed

section \<open>Plan: the time range\<close>

text \<open>
  Claim C5, as amended. The lookups that Plan makes are exactly the steps described above,
  one for every measurement source it reaches, up to the first lookup that fails: each range
  is the range of the condition as reduced at that step, with a zero-valued minimum replaced
  by the epoch and a zero-valued maximum replaced by the planning instant. So no lookup has
  a zero-valued minimum. Plan does not compare the two bounds. For the first source, with
  \<open>(tmin, tmax)\<close> the range of the condition reduced at the first reading of the clock: the
  lookup has its minimum above its maximum when \<open>tmin\<close> is given and lies after \<open>tmax\<close>, or
  after the planning instant when \<open>tmax\<close> is not given; the lookup is ordered when both
  bounds are given in order, or when none is given and the clock is not before the epoch.
\<close>

theorem Plan_time_ranges:
  "filter is_lookup (plan_trace env stmt cs) = map step_lookup (plan_steps env stmt)
   \<and> list_all (\<lambda>(rmin, rmax). \<not> IsZero rmin) (lookup_ranges (plan_trace env stmt cs))
   \<and> (\<forall>mm rest tmin tmax.
        Sources stmt = MeasurementSource mm # rest
        \<and> TimeRange env (Reduce env (Condition stmt) (clock env 0)) = (tmin, tmax) \<longrightarrow>
          (\<exists>tr. lookup_ranges (plan_trace env stmt cs) =
             (if IsZero tmin then Unix 0 0 else tmin, if IsZero tmax then clock env 1 else tmax)
               # tr)
          \<and> (\<not> IsZero tmin \<and> (if IsZero tmax then clock env 1 < tmin else tmax < tmin) \<longrightarrow>
               (\<exists>rmin rmax tr. lookup_ranges (plan_trace env stmt cs) = (rmin, rmax) # tr
                  \<and> rmax < rmin))
          \<and> ((\<not> IsZero tmin \<and> \<not> IsZero tmax \<and> tmin \<le> tmax)
               \<or> (IsZero tmin \<and> IsZero tmax \<and> Unix 0 0 \<le> clock env 1) \<longrightarrow>
               (\<exists>rmin rmax tr. lookup_ranges (plan_trace env stmt cs) = (rmin, rmax) # tr
                  \<and> rmin \<le> rmax)))"
proof (intro conjI allI impI)
  show "filter is_lookup (plan_trace env stmt cs) = map step_lookup (plan_steps env stmt)"
    by (rule Plan_lookups)
  have "list_all (\<lambda>(rmin, rmax). \<not> IsZero rmin)
          (lookup_ranges (map step_lookup (plan_steps env stmt)))"
    unfolding plan_steps_def all_steps_def
    by (rule lookup_ranges_performed) (rule steps_min_not_zero)
  then show "list_all (\<lambda>(rmin, rmax). \<not> IsZero rmin) (lookup_ranges (plan_trace env stmt cs))"
    using lookup_ranges_filter[of "plan_trace env stmt cs"] by (simp add: Plan_lookups)
next
  fix mm rest tmin tmax
  assume h: "Sources stmt = MeasurementSource mm # rest
        \<and> TimeRange env (Reduce env (Condition stmt) (clock env 0)) = (tmin, tmax)"
  then obtain tr where tr: "lookup_ranges (plan_trace env stmt cs) =
       (if IsZero tmin then Unix 0 0 else tmin, if IsZero tmax then clock env 1 else tmax) # tr"
    using first_step[of stmt mm rest env tmin tmax cs] by blast
  then show "\<exists>tr. lookup_ranges (plan_trace env stmt cs) =
             (if IsZero tmin then Unix 0 0 else tmin, if IsZero tmax then clock env 1 else tmax)
               # tr"
    by blast
  {
    assume "\<not> IsZero tmin \<and> (if IsZero tmax then clock env 1 < tmin else tmax < tmin)"
    with tr show "\<exists>rmin rmax tr. lookup_ranges (plan_trace env stmt cs) = (rmin, rmax) # tr
                  \<and> rmax < rmin"
      by (auto split: if_splits)
  }
  {
    assume "(\<not> IsZero tmin \<and> \<not> IsZero tmax \<and> tmin \<le> tmax)
               \<or> (IsZero tmin \<and> IsZero tmax \<and> Unix 0 0 \<le> clock env 1)"
    with tr show "\<exists>rmin rmax tr. lookup_ranges (plan_trace env stmt cs) = (rmin, rmax) # tr
                  \<and> rmin \<le> rmax"
      by auto
  }
qed

theorem Plan_time_ranges_witness:
  "Sources future_stmt = MeasurementSource cpu # []
   \<and> TimeRange scenario_env (Reduce scenario_env (Condition future_stmt) (clock scenario_env 0))
       = (5000, zero_time)
   \<and> clock scenario_env 1 < 5000
   \<and> lookup_ranges (plan_trace scenario_env future_stmt 0) = [(5000, 1001)]
   \<and> map step_lookup (plan_steps scenario_env overlap_stmt)
       = [LookupCall ''db'' ''rp'' 10 1000, LookupCall ''db'' ''rp'' 10 1000]
   \<and> filter is_lookup (plan_trace scenario_env overlap_stmt 0)
       = [LookupCall ''db'' ''rp'' 10 1000, LookupCall ''db'' ''rp'' 10 1000]"
proof -
  have h1: "Sources future_stmt = MeasurementSource cpu # []"
    by (simp add: scenario_defs)
  have h2: "TimeRange scenario_env
              (Reduce scenario_env (Condition future_stmt) (clock scenario_env 0))
            = (5000, zero_time)"
    by (simp add: scenario_defs)
  have h3: "clock scenario_env 1 < 5000"
    by (simp add: scenario_defs)
  have z: "\<not> IsZero 5000" "IsZero zero_time"
    by (simp_all add: IsZero_def zero_time_def)
  from Plan_time_ranges[of scenario_env future_stmt 0] h1 h2
  have "\<exists>tr. lookup_ranges (plan_trace scenario_env future_stmt 0) =
             (if IsZero 5000 then Unix 0 0 else 5000,
              if IsZero zero_time then clock scenario_env 1 else zero_time) # tr"
    by blast
  then obtain tr where tr: "lookup_ranges (plan_trace scenario_env future_stmt 0)
      = (5000, 1001) # tr"
    using z by (auto simp: scenario_defs)
  have "lookup_ranges (plan_trace scenario_env future_stmt 0) = [(5000, 1001)]"
    by (simp add: plan_eval scenario_defs)
  moreover have s: "map step_lookup (plan_steps scenario_env overlap_stmt)
       = [LookupCall ''db'' ''rp'' 10 1000, LookupCall ''db'' ''rp'' 10 1000]"
    by (simp add: plan_eval scenario_defs steps_eval)
  moreover from Plan_time_ranges[of scenario_env overlap_stmt 0] s
  have "filter is_lookup (plan_trace scenario_env overlap_stmt 0)
       = [LookupCall ''db'' ''rp'' 10 1000, LookupCall ''db'' ''rp'' 10 1000]"
    by simp
  ultimately show ?thesis using h1 h2 h3 by (intro conjI)
qed

theorem Plan_time_ranges_counterexample:
  "lookup_ranges (plan_trace scenario_env future_stmt 0) = [(5000, 1001)]
   \<and> \<not> (5000 :: time) \<le> 1001
   \<and> lookup_ranges (plan_trace scenario_env inverted_stmt 0) = [(2000, 1000)]
   \<and> \<not> (2000 :: time) \<le> 1000"
proof (intro conjI)
  show "lookup_ranges (plan_trace scenario_env future_stmt 0) = [(5000, 1001)]"
    by (simp add: plan_eval scenario_defs)
  show "\<not> (5000 :: time) \<le> 1001" by simp
  show "lookup_ranges (plan_trace scenario_env inverted_stmt 0) = [(2000, 1000)]"
    by (simp add: plan_eval scenario_defs)
  show "\<not> (2000 :: time) \<le> 1000" by simp
qed

section \<open>Plan: calls on the cluster\<close>

text \<open>
  Claim C6, as amended. For every shard in the map that Plan resolved: it is stored under its
  own id; if the local node owns it, Plan never calls NewMapper with its id; Plan calls
  NewMapper with its id at most once; and if the local node does not own it and Plan
  returns an Executor, Plan calls NewMapper with its id exactly once. (When Plan stops with
  an error, a shard that is not local may have had no call.)
\<close>

theorem Plan_NewMapper_calls:
  assumes "(k, sh) \<in> set (resolved_shards env stmt)"
  shows "ID sh = k
       \<and> (OwnedBy sh (NodeID env) \<longrightarrow> count_list (plan_trace env stmt cs) (NewMapperCall k) = 0)
       \<and> count_list (plan_trace env stmt cs) (NewMapperCall k) \<le> 1
       \<and> (\<not> OwnedBy sh (NodeID env) \<and> (\<exists>ex. plan_result env stmt cs = Inr ex)
            \<longrightarrow> count_list (plan_trace env stmt cs) (NewMapperCall k) = 1)"
proof -
  obtain r s where sl: "source_loop env (Sources stmt) (initial_state stmt) = (r, s)"
    by (metis prod.exhaust)
  note si = source_loop_initial[OF sl]
  let ?shs = "map snd (range_order (range_seed env) (st_shards s))"
  note en = enumerated_shards[OF si(1), of "range_seed env"]
  have mem: "(k, sh) \<in> set (st_shards s)" using assms si(5) by simp
  have id: "ID sh = k" using keyed_entry[OF si(1) mem] .
  from Plan_trace_shape[OF sl, of cs] obtain n where n:
    "plan_trace env stmt cs = st_trace s @
       map (\<lambda>sh. NewMapperCall (ID sh)) (filter (non_local env) (take n ?shs))"
    "(\<exists>ex. plan_result env stmt cs = Inr ex) \<longrightarrow> n = length (st_shards s)"
    by blast
  have count: "count_list (plan_trace env stmt cs) (NewMapperCall k)
        = (if k \<in> ID ` set (filter (non_local env) (take n ?shs)) then 1 else 0)"
    using count_lookups[OF si(2), of k] count_new_mapper_calls[OF en(1), of "non_local env" n k]
    by (simp add: n(1))
  have only: "sh' = sh" if "sh' \<in> set (take n ?shs)" "ID sh' = k" for sh'
  proof -
    from that(1) have "sh' \<in> set ?shs" by (rule in_set_takeD)
    then have "sh' \<in> snd ` set (st_shards s)" using en(3) by simp
    then obtain k' where k': "(k', sh') \<in> set (st_shards s)" by auto
    from keyed_entry[OF si(1) k'] that(2) have "k' = k" by simp
    with k' mem show ?thesis using keyed_unique[OF si(1)] by blast
  qed
  have local: "count_list (plan_trace env stmt cs) (NewMapperCall k) = 0"
    if "OwnedBy sh (NodeID env)"
  proof -
    have "k \<notin> ID ` set (filter (non_local env) (take n ?shs))"
    proof
      assume "k \<in> ID ` set (filter (non_local env) (take n ?shs))"
      then obtain sh' where "sh' \<in> set (take n ?shs)" "non_local env sh'" "ID sh' = k"
        by auto
      with only[of sh'] that show False by (simp add: non_local_def)
    qed
    with count show ?thesis by simp
  qed
  have remote: "count_list (plan_trace env stmt cs) (NewMapperCall k) = 1"
    if "\<not> OwnedBy sh (NodeID env)" "\<exists>ex. plan_result env stmt cs = Inr ex"
  proof -
    from that(2) n(2) en(4) have "take n ?shs = ?shs" by simp
    moreover have "sh \<in> set ?shs" using mem en(3) by (metis image_eqI snd_conv)
    moreover have "non_local env sh" using that(1) by (simp add: non_local_def)
    ultimately have "k \<in> ID ` set (filter (non_local env) (take n ?shs))"
      using id by auto
    with count show ?thesis by simp
  qed
  from id local remote count show ?thesis by simp
qed

theorem Plan_NewMapper_calls_witness:
  "(2, \<lparr>ID = 2, OwnerID = 2\<rparr>) \<in> set (resolved_shards scenario_env scenario_stmt)
   \<and> \<not> OwnedBy \<lparr>ID = 2, OwnerID = 2\<rparr> (NodeID scenario_env)
   \<and> plan_result scenario_env scenario_stmt 0
       = Inr \<lparr>mappers = [ShardMapperImpl ShardMapper, OtherImpl 2]\<rparr>
   \<and> count_list (plan_trace scenario_env scenario_stmt 0) (NewMapperCall 2) = 1"
proof -
  have h: "(2, \<lparr>ID = 2, OwnerID = 2\<rparr>) \<in> set (resolved_shards scenario_env scenario_stmt)"
    by (simp add: plan_eval scenario_defs)
  have o: "\<not> OwnedBy \<lparr>ID = 2, OwnerID = 2\<rparr> (NodeID scenario_env)"
    by (simp add: plan_eval scenario_defs)
  have r: "plan_result scenario_env scenario_stmt 0
             = Inr \<lparr>mappers = [ShardMapperImpl ShardMapper, OtherImpl 2]\<rparr>"
    by (simp add: plan_eval scenario_defs)
  from Plan_NewMapper_calls[OF h, of 0] o r
  have "count_list (plan_trace scenario_env scenario_stmt 0) (NewMapperCall 2) = 1"
    by blast
  with h o r show ?thesis by (intro conjI)
qed

theorem Plan_NewMapper_calls_counterexample:
  "(2, \<lparr>ID = 2, OwnerID = 2\<rparr>) \<in> set (resolved_shards outsider_env scenario_stmt)
   \<and> \<not> OwnedBy \<lparr>ID = 2, OwnerID = 2\<rparr> (NodeID outsider_env)
   \<and> plan_trace outsider_env scenario_stmt 0 = [LookupCall ''db'' ''rp'' 10 1000, NewMapperCall 1]
   \<and> count_list (plan_trace outsider_env scenario_stmt 0) (NewMapperCall 2) = 0"
proof (intro conjI)
  show "(2, \<lparr>ID = 2, OwnerID = 2\<rparr>) \<in> set (resolved_shards outsider_env scenario_stmt)"
    by (simp add: plan_eval scenario_defs)
  show "\<not> OwnedBy \<lparr>ID = 2, OwnerID = 2\<rparr> (NodeID outsider_env)"
    by (simp add: plan_eval scenario_defs)
  show tr: "plan_trace outsider_env scenario_stmt 0
          = [LookupCall ''db'' ''rp'' 10 1000, NewMapperCall 1]"
    by (simp add: plan_eval scenario_defs)
  show "count_list (plan_trace outsider_env scenario_stmt 0) (NewMapperCall 2) = 0"
    by (simp add: tr)
qed

section \<open>Plan: failures of the collaborators\<close>

text \<open>
  Claim C7. If a call that Plan makes on the catalog or on the cluster returns an error, Plan
  returns that error and no Executor. If the cluster cannot build the mapper of a resolved
  shard that is not local, Plan returns no Executor. When Plan returns an Executor, no call
  failed and the Executor holds the mapper of every resolved shard, in the order of
  enumeration.
\<close>

theorem Plan_collaborator_failure_is_fatal:
  "(\<forall>ev \<in> set (plan_trace env stmt cs). \<forall>err.
      call_failed env ev err \<longrightarrow> plan_result env stmt cs = Inl err)
   \<and> ((\<exists>p \<in> set (resolved_shards env stmt).
          non_local env (snd p) \<and> (\<exists>err. NewMapper env (ID (snd p)) = Inl err))
       \<longrightarrow> (\<exists>err. plan_result env stmt cs = Inl err))
   \<and> (\<forall>ex. plan_result env stmt cs = Inr ex \<longrightarrow>
         list_all2 (mapper_for env)
           (map snd (range_order (range_seed env) (resolved_shards env stmt))) (mappers ex))"
proof (cases rule: Plan_cases[of env stmt cs])
  case (source_error err s)
  note si = source_loop_initial[OF source_error(1)]
  from si(4) source_error(2) show ?thesis
    by (simp add: plan_result_def plan_trace_def)
next
  case (mapper_error s err tr)
  note si = source_loop_initial[OF mapper_error(1)]
  from mapper_loop_failed_call[OF mapper_error(2)] obtain new where
    "tr = st_trace s @ new" "\<forall>ev \<in> set new. \<forall>e. call_failed env ev e \<longrightarrow> Inl err = (Inl e :: Error + Mapper list)"
    by blast
  with si(4) mapper_error(3) show ?thesis
    by (auto simp: plan_result_def plan_trace_def)
next
  case (success s ms tr)
  note si = source_loop_initial[OF success(1)]
  let ?shs = "map snd (range_order (range_seed env) (st_shards s))"
  from mapper_loop_failed_call[OF success(2)] obtain new where new:
    "tr = st_trace s @ new" "\<forall>ev \<in> set new. \<forall>e. \<not> call_failed env ev e"
    by auto
  have calls: "\<forall>ev \<in> set (plan_trace env stmt cs). \<forall>err.
      call_failed env ev err \<longrightarrow> plan_result env stmt cs = Inl err"
    using new si(4) success(3) by (auto simp: plan_trace_def)
  have "\<not> (\<exists>sh \<in> set ?shs. non_local env sh \<and> (\<exists>err. NewMapper env (ID sh) = Inl err))"
    using mapper_loop_unreachable[OF success(2)] by auto
  then have reach: "\<not> (\<exists>p \<in> set (resolved_shards env stmt).
          non_local env (snd p) \<and> (\<exists>err. NewMapper env (ID (snd p)) = Inl err))"
    using si(5) by (auto simp: set_range_order)
  from mapper_loop_mappers[OF success(2)] have "list_all2 (mapper_for env) ?shs ms" by simp
  then have built: "\<forall>ex. plan_result env stmt cs = Inr ex \<longrightarrow>
         list_all2 (mapper_for env)
           (map snd (range_order (range_seed env) (resolved_shards env stmt))) (mappers ex)"
    using success(3) si(5) by (simp add: plan_result_def NewExecutor_def)
  from calls reach built show ?thesis by blast
qed

theorem Plan_collaborator_failure_is_fatal_witness:
  "NewMapperCall 2 \<in> set (plan_trace unreachable_env scenario_stmt 0)
   \<and> call_failed unreachable_env (NewMapperCall 2) (CollaboratorError ''unreachable'')
   \<and> plan_result unreachable_env scenario_stmt 0 = Inl (CollaboratorError ''unreachable'')
   \<and> LookupCall ''db'' ''rp'' 10 1000 \<in> set (plan_trace offline_env scenario_stmt 0)
   \<and> call_failed offline_env (LookupCall ''db'' ''rp'' 10 1000) (CollaboratorError ''catalog offline'')
   \<and> plan_result offline_env scenario_stmt 0 = Inl (CollaboratorError ''catalog offline'')"
proof -
  have m: "NewMapperCall 2 \<in> set (plan_trace unreachable_env scenario_stmt 0)"
    by (simp add: plan_eval scenario_defs)
  have mf: "call_failed unreachable_env (NewMapperCall 2) (CollaboratorError ''unreachable'')"
    by (simp add: scenario_defs)
  have l: "LookupCall ''db'' ''rp'' 10 1000 \<in> set (plan_trace offline_env scenario_stmt 0)"
    by (simp add: plan_eval scenario_defs)
  have lf: "call_failed offline_env (LookupCall ''db'' ''rp'' 10 1000)
              (CollaboratorError ''catalog offline'')"
    by (simp add: scenario_defs)
  from Plan_collaborator_failure_is_fatal[of unreachable_env scenario_stmt 0] m mf
  have r1: "plan_result unreachable_env scenario_stmt 0 = Inl (CollaboratorError ''unreachable'')"
    by blast
  from Plan_collaborator_failure_is_fatal[of offline_env scenario_stmt 0] l lf
  have r2: "plan_result offline_env scenario_stmt 0 = Inl (CollaboratorError ''catalog offline'')"
    by blast
  from m mf r1 l lf r2 show ?thesis by (intro conjI)
qed

section \<open>Plan: the statement\<close>

text \<open>
  Claim C8, as amended. Plan leaves every field of the statement other than its condition as
  it was, and assigns to the condition once for every lookup it makes: after Plan the
  condition is the condition before, reduced at the instant of each step in turn. The number
  of reductions is the number of lookups in the log; it is at most the number of leading
  measurement sources, and equal to it when no lookup fails. So a statement with no source,
  or whose first source is not a measurement, is unchanged, and a statement with one
  measurement source has its condition reduced once.
\<close>

theorem Plan_assigns_only_condition:
  "plan_statement env stmt cs
     = stmt\<lparr>Condition := foldl (Reduce env) (Condition stmt) (map step_now (plan_steps env stmt))\<rparr>
   \<and> length (plan_steps env stmt) = length (filter is_lookup (plan_trace env stmt cs))
   \<and> length (plan_steps env stmt) \<le> length (takeWhile is_measurement (Sources stmt))
   \<and> (list_all (\<lambda>st. call_ok env (step_lookup st)) (all_steps env stmt) \<longrightarrow>
        length (plan_steps env stmt) = length (takeWhile is_measurement (Sources stmt)))
   \<and> (Sources stmt = [] \<longrightarrow> plan_statement env stmt cs = stmt)
   \<and> (\<forall>d rest. Sources stmt = OtherSource d # rest \<longrightarrow> plan_statement env stmt cs = stmt)
   \<and> (\<forall>mm. Sources stmt = [MeasurementSource mm] \<longrightarrow>
         plan_statement env stmt cs
           = stmt\<lparr>Condition := Reduce env (Condition stmt) (clock env 0)\<rparr>)"
proof -
  obtain r s where sl: "source_loop env (Sources stmt) (initial_state stmt) = (r, s)"
    by (metis prod.exhaust)
  have exact: "plan_statement env stmt cs
     = stmt\<lparr>Condition := foldl (Reduce env) (Condition stmt) (map step_now (plan_steps env stmt))\<rparr>"
    using Plan_statement_after[OF sl, of cs] source_loop_plan_steps(2)[OF sl] by simp
  have count: "length (plan_steps env stmt) = length (filter is_lookup (plan_trace env stmt cs))"
    by (simp add: Plan_lookups)
  have upper: "length (plan_steps env stmt) \<le> length (takeWhile is_measurement (Sources stmt))"
    using length_performed[of env "all_steps env stmt"]
    by (simp add: plan_steps_def all_steps_def length_source_steps)
  have full: "length (plan_steps env stmt) = length (takeWhile is_measurement (Sources stmt))"
    if "list_all (\<lambda>st. call_ok env (step_lookup st)) (all_steps env stmt)"
    using performed_all[OF that] by (simp add: plan_steps_def all_steps_def length_source_steps)
  have none: "plan_statement env stmt cs = stmt" if "Sources stmt = []"
    using exact that by (simp add: plan_steps_def all_steps_def)
  have other: "plan_statement env stmt cs = stmt" if "Sources stmt = OtherSource d # rest" for d rest
    using exact that by (simp add: plan_steps_def all_steps_def)
  have one: "plan_statement env stmt cs
           = stmt\<lparr>Condition := Reduce env (Condition stmt) (clock env 0)\<rparr>"
    if "Sources stmt = [MeasurementSource mm]" for mm
    using exact that by (simp add: plan_steps_def all_steps_def Let_def)
  from exact count upper full none other one show ?thesis by blast
qed

theorem Plan_assigns_only_condition_witness:
  "map step_now (plan_steps scenario_env overlap_stmt) = [1000, 1001]
   \<and> list_all (\<lambda>st. call_ok scenario_env (step_lookup st)) (all_steps scenario_env overlap_stmt)
   \<and> length (plan_steps scenario_env overlap_stmt) = 2
   \<and> plan_statement scenario_env overlap_stmt 0
       = overlap_stmt\<lparr>Condition := AndExpr (TimeAtLeast (TimeLiteral 10)) (TimeAtMost (TimeLiteral 1000))\<rparr>
   \<and> map step_now (plan_steps recording_env recording_stmt) = [1000, 1002]
   \<and> plan_statement recording_env recording_stmt 0 = recording_stmt\<lparr>Condition := [1000, 1002]\<rparr>"
proof -
  have rn: "map step_now (plan_steps recording_env recording_stmt) = [1000, 1002]"
    by (simp add: plan_eval scenario_defs steps_eval)
  from Plan_assigns_only_condition[of recording_env recording_stmt 0] rn
  have "plan_statement recording_env recording_stmt 0
          = recording_stmt\<lparr>Condition := foldl (Reduce recording_env) (Condition recording_stmt) [1000, 1002]\<rparr>"
    by simp
  then have rec: "plan_statement recording_env recording_stmt 0
          = recording_stmt\<lparr>Condition := [1000, 1002]\<rparr>"
    by (simp add: steps_eval)
  have n: "map step_now (plan_steps scenario_env overlap_stmt) = [1000, 1001]"
    by (simp add: plan_eval scenario_defs steps_eval)
  have ok: "list_all (\<lambda>st. call_ok scenario_env (step_lookup st)) (all_steps scenario_env overlap_stmt)"
    by (simp add: plan_eval scenario_defs steps_eval)
  have tw: "length (takeWhile is_measurement (Sources overlap_stmt)) = 2"
    by (simp add: scenario_defs)
  from Plan_assigns_only_condition[of scenario_env overlap_stmt 0] ok tw
  have len: "length (plan_steps scenario_env overlap_stmt) = 2" by simp
  from Plan_assigns_only_condition[of scenario_env overlap_stmt 0] n
  have "plan_statement scenario_env overlap_stmt 0
          = overlap_stmt\<lparr>Condition := foldl (Reduce scenario_env) (Condition overlap_stmt) [1000, 1001]\<rparr>"
    by simp
  then have "plan_statement scenario_env overlap_stmt 0
       = overlap_stmt\<lparr>Condition := AndExpr (TimeAtLeast (TimeLiteral 10)) (TimeAtMost (TimeLiteral 1000))\<rparr>"
    by (simp add: scenario_defs)
  with n ok len rn rec show ?thesis by (intro conjI)
qed

theorem Plan_assigns_only_condition_counterexample:
  "Condition scenario_stmt = AndExpr (TimeAtLeast (TimeLiteral 10)) (TimeAtMost NowCall)
   \<and> Condition (plan_statement scenario_env scenario_stmt 0)
       = AndExpr (TimeAtLeast (TimeLiteral 10)) (TimeAtMost (TimeLiteral 1000))
   \<and> plan_statement scenario_env scenario_stmt 0 \<noteq> scenario_stmt"
proof -
  have a: "Condition scenario_stmt = AndExpr (TimeAtLeast (TimeLiteral 10)) (TimeAtMost NowCall)"
    by (simp add: scenario_defs)
  have b: "Condition (plan_statement scenario_env scenario_stmt 0)
       = AndExpr (TimeAtLeast (TimeLiteral 10)) (TimeAtMost (TimeLiteral 1000))"
    by (simp add: plan_eval scenario_defs)
  from a b have "Condition (plan_statement scenario_env scenario_stmt 0) \<noteq> Condition scenario_stmt"
    by simp
  then have "plan_statement scenario_env scenario_stmt 0 \<noteq> scenario_stmt"
    by auto
  with a b show ?thesis by (intro conjI)
qed

section \<open>Execute\<close>

lemma successors_Execute: "successors (Execute e) = []"
  by (simp add: successors_def Execute_def)

lemma reaches_Execute_aux: "reaches r0 r \<Longrightarrow> r0 = Execute e \<Longrightarrow> r = Execute e"
  by (induction rule: reaches.induct) (simp_all add: successors_Execute)

lemma reaches_Execute: "reaches (Execute e) r \<Longrightarrow> r = Execute e"
  by (rule reaches_Execute_aux) simp_all

text \<open>
  The runtime itself does deliver rows, and in any order: a goroutine that sends and then
  closes ends the consumer's loop with the row delivered. Nothing below follows from the
  runtime alone.
\<close>

lemma runtime_delivers:
  "reaches \<lparr>out_capacity = 0, out_closed = False, goroutines = [[DoSend row, DoCloseOut]],
            mapper_calls = [], delivered = []\<rparr>
           \<lparr>out_capacity = 0, out_closed = True, goroutines = [[]],
            mapper_calls = [], delivered = [row]\<rparr>"
proof -
  let ?r0 = "\<lparr>out_capacity = 0, out_closed = False, goroutines = [[DoSend row, DoCloseOut]],
            mapper_calls = [], delivered = []\<rparr>"
  let ?r1 = "\<lparr>out_capacity = 0, out_closed = False, goroutines = [[DoCloseOut]],
            mapper_calls = [], delivered = [row]\<rparr>"
  let ?r2 = "\<lparr>out_capacity = 0, out_closed = True, goroutines = [[]],
            mapper_calls = [], delivered = [row]\<rparr>"
  have "?r1 \<in> set (successors ?r0)" by (simp add: successors_def fire_def)
  then have "reaches ?r0 ?r1" by (rule reaches_step[OF reaches_refl])
  moreover have "?r2 \<in> set (successors ?r1)" by (simp add: successors_def fire_def)
  ultimately show ?thesis by (rule reaches_step)
qed

text \<open>
  Claim C1. The claim asks that the sequence returned by Execute ends, with no row and no
  error, when every mapper is exhausted at once. The code does not do that: in every state
  that can be reached after Execute has returned, for any mappers, the channel is open, no
  goroutine can take a step, and nothing has been delivered, so the consumer waits for ever.
\<close>

theorem Execute_never_ends:
  "reaches (Execute e) r \<Longrightarrow> blocked_forever r \<and> \<not> ended r \<and> delivered r = []"
proof -
  assume "reaches (Execute e) r"
  then have r: "r = Execute e" by (rule reaches_Execute)
  have "blocked_forever (Execute e)"
    by (simp add: blocked_forever_def successors_Execute) (simp add: Execute_def)
  moreover have "\<not> ended (Execute e)" "delivered (Execute e) = []"
    by (simp_all add: ended_def Execute_def)
  ultimately show ?thesis by (simp add: r)
qed

theorem Execute_never_ends_witness:
  "reaches (Execute local_executor) (Execute local_executor)
   \<and> blocked_forever (Execute local_executor)
   \<and> \<not> ended (Execute local_executor)"
proof -
  have h: "reaches (Execute local_executor) (Execute local_executor)"
    by (rule reaches_refl)
  from Execute_never_ends[OF h] h show ?thesis by simp
qed

text \<open>
  Claim C3. The claim asks for exactly one call of Close on every mapper, however the run
  ends. The code does not do that: in every state that can be reached after Execute has
  returned, the number of calls of Close on any mapper of the Executor is zero.
\<close>

theorem Execute_calls_no_Close:
  assumes "reaches (Execute e) r" and "k < length (mappers e)"
  shows "close_count r k = 0"
proof -
  from assms(1) have "r = Execute e" by (rule reaches_Execute)
  then have "mapper_calls r = []" by (simp add: Execute_def)
  then show ?thesis by (simp add: close_count_def)
qed

theorem Execute_calls_no_Close_witness:
  "reaches (Execute local_executor) (Execute local_executor)
   \<and> 0 < length (mappers local_executor)
   \<and> close_count (Execute local_executor) 0 = 0"
proof -
  have h: "reaches (Execute local_executor) (Execute local_executor)"
    by (rule reaches_refl)
  have k: "0 < length (mappers local_executor)"
    by (simp add: local_executor_def NewExecutor_def)
  from Execute_calls_no_Close[OF h k] h k show ?thesis by simp
qed



end
